theory Spec2Isabelle
  imports Complex_Main "HOL-Library.Log_Nat"
begin

section \<open>Numbers of the component: binary64 values\<close>

text \<open>
  The component computes with JavaScript numbers. A number is NaN, one of the two
  infinities, or a finite value, carried here as the rational it denotes. Every
  arithmetic operation computes the exact rational result and rounds it to binary64
  (\<open>fl\<close>: round to nearest, ties to even, gradual underflow, overflow to infinity).
  The sign of zero is not carried: the component compares numbers and divides only by
  a square, so \<open>-0\<close> and \<open>+0\<close> behave alike in it.
\<close>

datatype jsnum = NaN | PInf | NInf | Fin rat

definition pow2 :: "int \<Rightarrow> rat" where
  "pow2 k = (if 0 \<le> k then 2 ^ nat k else 1 / 2 ^ nat (- k))"

definition pow10 :: "int \<Rightarrow> rat" where
  "pow10 k = (if 0 \<le> k then 10 ^ nat k else 1 / 10 ^ nat (- k))"

text \<open>The binary exponent of a positive rational: \<open>2^e \<le> a < 2^(e+1)\<close>.\<close>

definition expo :: "rat \<Rightarrow> int" where
  "expo a = (let (p, q) = quotient_of a; d = bitlen p - bitlen q
             in if pow2 d \<le> a then d else d - 1)"

definition round_even :: "rat \<Rightarrow> int" where
  "round_even t = (let n = \<lfloor>t\<rfloor>; r = t - of_int n
                   in if r < 1 / 2 then n
                      else if 1 / 2 < r then n + 1
                      else if even n then n else n + 1)"

text \<open>
  Rounding to binary64: 53 significant bits, so a value with binary exponent \<open>e\<close> is
  rounded to a multiple of \<open>2^(e-52)\<close>; the least exponent is \<open>-1022\<close> (below it the
  spacing stays \<open>2^-1074\<close>), and a rounded magnitude of \<open>2^1024\<close> or more is infinite.
\<close>

definition quantum :: "rat \<Rightarrow> rat" where
  "quantum a = pow2 (max (expo a) (- 1022) - 52)"

definition fl :: "rat \<Rightarrow> jsnum" where
  "fl x = (if x = 0 then Fin 0
           else let a = \<bar>x\<bar>;
                    q = quantum a;
                    r = of_int (round_even (a / q)) * q
                in if pow2 1024 \<le> r then (if 0 < x then PInf else NInf)
                   else Fin (if 0 < x then r else - r))"

definition signum :: "jsnum \<Rightarrow> int" where
  "signum a = (case a of NaN \<Rightarrow> 0 | PInf \<Rightarrow> 1 | NInf \<Rightarrow> - 1
               | Fin x \<Rightarrow> (if 0 < x then 1 else if x < 0 then - 1 else 0))"

definition of_sign :: "int \<Rightarrow> jsnum" where
  "of_sign s = (if s = 0 then NaN else if 0 < s then PInf else NInf)"

text \<open>\<open>a < b\<close>, \<open>a <= b\<close>, \<open>a > b\<close> of the language: false when either side is NaN.\<close>

definition js_lt :: "jsnum \<Rightarrow> jsnum \<Rightarrow> bool" where
  "js_lt a b = (case (a, b) of
       (NaN, _) \<Rightarrow> False | (_, NaN) \<Rightarrow> False
     | (Fin x, Fin y) \<Rightarrow> x < y
     | (PInf, _) \<Rightarrow> False | (_, NInf) \<Rightarrow> False
     | (NInf, _) \<Rightarrow> True | (_, PInf) \<Rightarrow> True)"

definition js_le :: "jsnum \<Rightarrow> jsnum \<Rightarrow> bool" where
  "js_le a b = (a \<noteq> NaN \<and> b \<noteq> NaN \<and> \<not> js_lt b a)"

definition js_gt :: "jsnum \<Rightarrow> jsnum \<Rightarrow> bool" where
  "js_gt a b = js_lt b a"

definition js_mul :: "jsnum \<Rightarrow> jsnum \<Rightarrow> jsnum" where
  "js_mul a b = (case (a, b) of
       (NaN, _) \<Rightarrow> NaN | (_, NaN) \<Rightarrow> NaN
     | (Fin x, Fin y) \<Rightarrow> fl (x * y)
     | (_, _) \<Rightarrow> of_sign (signum a * signum b))"

definition js_div :: "jsnum \<Rightarrow> jsnum \<Rightarrow> jsnum" where
  "js_div a b = (case (a, b) of
       (NaN, _) \<Rightarrow> NaN | (_, NaN) \<Rightarrow> NaN
     | (Fin x, Fin y) \<Rightarrow> (if y = 0 then of_sign (signum a) else fl (x / y))
     | (Fin x, _) \<Rightarrow> Fin 0
     | (_, Fin y) \<Rightarrow> of_sign (signum a * (if y < 0 then - 1 else 1))
     | (_, _) \<Rightarrow> NaN)"

definition js_sub :: "jsnum \<Rightarrow> jsnum \<Rightarrow> jsnum" where
  "js_sub a b = (case (a, b) of
       (NaN, _) \<Rightarrow> NaN | (_, NaN) \<Rightarrow> NaN
     | (Fin x, Fin y) \<Rightarrow> fl (x - y)
     | (Fin x, PInf) \<Rightarrow> NInf | (Fin x, NInf) \<Rightarrow> PInf
     | (PInf, PInf) \<Rightarrow> NaN | (NInf, NInf) \<Rightarrow> NaN
     | (PInf, _) \<Rightarrow> PInf | (NInf, _) \<Rightarrow> NInf)"

text \<open>\<open>Math.min\<close> and \<open>Math.max\<close>: NaN when an argument is NaN.\<close>

definition Math_min :: "jsnum \<Rightarrow> jsnum \<Rightarrow> jsnum" where
  "Math_min a b = (if a = NaN \<or> b = NaN then NaN else if js_lt b a then b else a)"

definition Math_max :: "jsnum \<Rightarrow> jsnum \<Rightarrow> jsnum" where
  "Math_max a b = (if a = NaN \<or> b = NaN then NaN else if js_lt a b then b else a)"

definition isNaN :: "jsnum \<Rightarrow> bool" where
  "isNaN a = (a = NaN)"

definition isFinite :: "jsnum \<Rightarrow> bool" where
  "isFinite a = (case a of Fin x \<Rightarrow> True | _ \<Rightarrow> False)"


section \<open>Strings\<close>

text \<open>
  A string of the language is its sequence of UTF-16 code units, here a list of
  naturals; \<open>js\<close> turns an ASCII literal into one. The messages and category names the
  component builds itself are plain ASCII and stay \<open>string\<close>s.
\<close>

type_synonym jsstring = "nat list"

definition js :: "string \<Rightarrow> jsstring" where
  "js s = map of_char s"

text \<open>White space and line terminators, as \<open>trim\<close> and \<open>parseFloat\<close> skip them.\<close>

definition is_ws :: "nat \<Rightarrow> bool" where
  "is_ws c = (c \<in> {9, 10, 11, 12, 13, 32, 160, 5760, 8232, 8233, 8239, 8287, 12288, 65279}
              \<or> (8192 \<le> c \<and> c \<le> 8202))"

definition is_digit :: "nat \<Rightarrow> bool" where
  "is_digit c = (48 \<le> c \<and> c \<le> 57)"

definition trim :: "jsstring \<Rightarrow> jsstring" where
  "trim s = rev (dropWhile is_ws (rev (dropWhile is_ws s)))"

text \<open>The value of a run of decimal digits, most significant first.\<close>

definition digits_val :: "jsstring \<Rightarrow> nat" where
  "digits_val ds = foldl (\<lambda>acc c. 10 * acc + (c - 48)) 0 ds"

text \<open>An optional sign: whether it is a minus, and the rest.\<close>

definition opt_sign :: "jsstring \<Rightarrow> bool \<times> jsstring" where
  "opt_sign t = (case t of [] \<Rightarrow> (False, [])
                 | c # r \<Rightarrow> if c = 45 then (True, r) else if c = 43 then (False, r) else (False, t))"

text \<open>The exponent part \<open>e\<close>/\<open>E\<close>, sign, digits: it counts only when a digit follows.\<close>

definition exponent_part :: "jsstring \<Rightarrow> int" where
  "exponent_part t = (case t of [] \<Rightarrow> 0
     | c # r \<Rightarrow> if c = 101 \<or> c = 69
                then (let (neg, u) = opt_sign r; ds = takeWhile is_digit u
                      in if ds = [] then 0
                         else if neg then - int (digits_val ds) else int (digits_val ds))
                else 0)"

text \<open>
  The value of the longest prefix that is an unsigned decimal literal: digits with an
  optional fraction, or a point followed by digits, and an optional exponent; \<open>None\<close>
  when no prefix is one.
\<close>

definition decimal_literal :: "jsstring \<Rightarrow> rat option" where
  "decimal_literal u =
     (let ip = takeWhile is_digit u;
          r1 = dropWhile is_digit u;
          (fp, r2) = (case r1 of [] \<Rightarrow> ([], [])
                      | c # r \<Rightarrow> if c = 46
                                 then (takeWhile is_digit r, dropWhile is_digit r)
                                 else ([], r1))
      in if ip = [] \<and> fp = [] then None
         else Some (of_nat (digits_val (ip @ fp))
                    * pow10 (exponent_part r2 - int (length fp))))"

text \<open>
  \<open>Number.parseFloat\<close>: skip leading white space, read the longest prefix that is a
  decimal literal (an optional sign, then \<open>Infinity\<close> or an unsigned decimal literal),
  ignore what follows, and round the literal's value to binary64; NaN when no prefix is
  a literal.
\<close>

definition parseFloat :: "jsstring \<Rightarrow> jsnum" where
  "parseFloat s =
     (let (neg, u) = opt_sign (dropWhile is_ws s)
      in if take 8 u = js ''Infinity'' then (if neg then NInf else PInf)
         else case decimal_literal u of
                None \<Rightarrow> NaN
              | Some v \<Rightarrow> fl (if neg then - v else v))"

text \<open>The decimal digits of a natural number, as code units.\<close>

fun digits :: "nat \<Rightarrow> jsstring" where
  "digits n = (if n < 10 then [48 + n] else digits (n div 10) @ [48 + n mod 10])"

declare digits.simps [simp del]

text \<open>
  \<open>x.toFixed(1)\<close> for a finite \<open>x\<close> of magnitude below \<open>10^21\<close>: the integer \<open>n\<close> with
  \<open>n / 10\<close> nearest to \<open>|x|\<close>, the larger one on a tie, printed with a point before its
  last digit and the sign in front.
\<close>

definition toFixed1 :: "rat \<Rightarrow> jsstring" where
  "toFixed1 x =
     (let n = nat \<lfloor>10 * \<bar>x\<bar> + 1 / 2\<rfloor>
      in (if x < 0 then js ''-'' else []) @ digits (n div 10) @ js ''.'' @ digits (n mod 10))"

text \<open>
  \<open>Number.parseFloat(x.toFixed(1))\<close>. From \<open>10^21\<close> on, \<open>toFixed\<close> returns the
  number's own string form, which by the language's definition reads back as the same
  number; NaN and the infinities print as \<open>NaN\<close>, \<open>Infinity\<close>, \<open>-Infinity\<close> and read
  back as themselves.
\<close>

definition parse_toFixed1 :: "jsnum \<Rightarrow> jsnum" where
  "parse_toFixed1 a = (case a of
       Fin x \<Rightarrow> if 10 ^ 21 \<le> \<bar>x\<bar> then Fin x else parseFloat (toFixed1 x)
     | _ \<Rightarrow> a)"


section \<open>The calculator\<close>

datatype field = Height | Weight

record errors =
  err_height :: "string option"
  err_weight :: "string option"
  err_general :: "string option"

text \<open>
  The component's state, one field per \<open>useState\<close> cell. \<open>animateResult\<close>, the
  half-second highlight driven by a timer, is left out: nothing reads it but the style
  of the result box.
\<close>

record state =
  height :: jsstring
  weight :: jsstring
  bmi :: "jsnum option"
  category :: string
  errors :: errors
  submitted :: bool

definition init :: state where
  "init = \<lparr>height = [], weight = [], bmi = None, category = [],
           errors = \<lparr>err_height = None, err_weight = None, err_general = None\<rparr>,
           submitted = False\<rparr>"

definition field_name :: "field \<Rightarrow> string" where
  "field_name f = (case f of Height \<Rightarrow> ''height'' | Weight \<Rightarrow> ''weight'')"

text \<open>\<open>field.charAt(0).toUpperCase() + field.slice(1)\<close>\<close>

definition toUpperCase_char :: "char \<Rightarrow> char" where
  "toUpperCase_char c =
     (case map_of (zip ''abcdefghijklmnopqrstuvwxyz'' ''ABCDEFGHIJKLMNOPQRSTUVWXYZ'') c of
        Some u \<Rightarrow> u | None \<Rightarrow> c)"

definition capitalised :: "string \<Rightarrow> string" where
  "capitalised s = (case s of [] \<Rightarrow> [] | c # cs \<Rightarrow> toUpperCase_char c # cs)"

definition validateField :: "field \<Rightarrow> jsstring \<Rightarrow> string option" where
  "validateField f v =
     (let numValue = parseFloat v
      in if trim v = [] then Some (capitalised (field_name f) @ '' is required'')
         else if isNaN numValue \<or> js_le numValue (Fin 0)
              then Some (''Please enter a valid '' @ field_name f)
         else if f = Height \<and> js_lt numValue (Fin 50) then Some ''Height seems too low (min 50cm)''
         else if f = Height \<and> js_gt numValue (Fin 250) then Some ''Height seems too high (max 250cm)''
         else if f = Weight \<and> js_lt numValue (Fin 20) then Some ''Weight seems too low (min 20kg)''
         else if f = Weight \<and> js_gt numValue (Fin 500) then Some ''Weight seems too high (max 500kg)''
         else None)"

definition set_error :: "field \<Rightarrow> string option \<Rightarrow> errors \<Rightarrow> errors" where
  "set_error f e es = (case f of Height \<Rightarrow> es\<lparr>err_height := e\<rparr> | Weight \<Rightarrow> es\<lparr>err_weight := e\<rparr>)"

definition handleInputChange :: "field \<Rightarrow> jsstring \<Rightarrow> state \<Rightarrow> state" where
  "handleInputChange f v s =
     (let s1 = (if f = Height then s\<lparr>height := v\<rparr> else s\<lparr>weight := v\<rparr>)
      in if submitted s then s1\<lparr>errors := set_error f (validateField f v) (errors s)\<rparr>
         else s1)"

text \<open>The unrounded score of the \<open>try\<close> block, from the two input texts.\<close>

definition bmiValue :: "jsstring \<Rightarrow> jsstring \<Rightarrow> jsnum" where
  "bmiValue h w =
     (let heightValue = parseFloat h;
          weightValue = parseFloat w;
          heightInMeters = js_div heightValue (Fin 100)
      in js_div weightValue (js_mul heightInMeters heightInMeters))"

definition categoryOf :: "jsnum \<Rightarrow> string" where
  "categoryOf b = (if js_lt b (Fin (37 / 2)) then ''Underweight''
                   else if js_lt b (Fin 25) then ''Normal weight''
                   else if js_lt b (Fin 30) then ''Overweight''
                   else ''Obese'')"

datatype computation_error = Invalid_value

text \<open>
  The \<open>try\<close> block: \<open>Inl\<close> is the thrown error, \<open>Inr\<close> the pair handed to \<open>setBmi\<close>
  and \<open>setCategory\<close>. The handler of the error only sets the general message; what
  it writes to the console is not part of the state.
\<close>

definition compute :: "jsstring \<Rightarrow> jsstring \<Rightarrow> computation_error + (jsnum \<times> string)" where
  "compute h w =
     (let b = bmiValue h w
      in if \<not> isFinite b \<or> isNaN b then Inl Invalid_value
         else Inr (parse_toFixed1 b, categoryOf b))"

definition general_message :: string where
  "general_message = ''An error occurred during calculation. Please check your inputs.''"

definition calculateBMI :: "state \<Rightarrow> state" where
  "calculateBMI s =
     (let heightError = validateField Height (height s);
          weightError = validateField Weight (weight s);
          s1 = s\<lparr>submitted := True,
                 errors := \<lparr>err_height = heightError, err_weight = weightError,
                            err_general = None\<rparr>\<rparr>
      in if heightError \<noteq> None \<or> weightError \<noteq> None then s1
         else case compute (height s) (weight s) of
                Inr (score, cat) \<Rightarrow> s1\<lparr>bmi := Some score, category := cat\<rparr>
              | Inl e \<Rightarrow> s1\<lparr>errors := (errors s1)\<lparr>err_general := Some general_message\<rparr>\<rparr>)"

definition getBmiScalePosition :: "jsnum option \<Rightarrow> jsnum" where
  "getBmiScalePosition b = (case b of None \<Rightarrow> Fin 0
     | Some v \<Rightarrow> (let clampedBmi = Math_max (Fin 10) (Math_min v (Fin 40))
                  in js_mul (js_div (js_sub clampedBmi (Fin 10)) (Fin 30)) (Fin 100)))"

text \<open>The events of the form and the run of a sequence of them from a state.\<close>

datatype event = Change field jsstring | Submit

definition step :: "state \<Rightarrow> event \<Rightarrow> state" where
  "step s e = (case e of Change f v \<Rightarrow> handleInputChange f v s | Submit \<Rightarrow> calculateBMI s)"

definition run :: "state \<Rightarrow> event list \<Rightarrow> state" where
  "run s es = foldl step s es"

section \<open>Vocabulary for the properties\<close>

text \<open>
  The four messages of \<open>validateField\<close> and the bounds of its ranges, by field, so that
  properties can name them.
\<close>

definition required_message :: "field \<Rightarrow> string" where
  "required_message f = (case f of Height \<Rightarrow> ''Height is required'' | Weight \<Rightarrow> ''Weight is required'')"

definition valid_message :: "field \<Rightarrow> string" where
  "valid_message f = (case f of Height \<Rightarrow> ''Please enter a valid height''
                      | Weight \<Rightarrow> ''Please enter a valid weight'')"

definition low_message :: "field \<Rightarrow> string" where
  "low_message f = (case f of Height \<Rightarrow> ''Height seems too low (min 50cm)''
                    | Weight \<Rightarrow> ''Weight seems too low (min 20kg)'')"

definition high_message :: "field \<Rightarrow> string" where
  "high_message f = (case f of Height \<Rightarrow> ''Height seems too high (max 250cm)''
                     | Weight \<Rightarrow> ''Weight seems too high (max 500kg)'')"

definition lower_bound :: "field \<Rightarrow> rat" where
  "lower_bound f = (case f of Height \<Rightarrow> 50 | Weight \<Rightarrow> 20)"

definition upper_bound :: "field \<Rightarrow> rat" where
  "upper_bound f = (case f of Height \<Rightarrow> 250 | Weight \<Rightarrow> 500)"

definition is_bound_message :: "string \<Rightarrow> bool" where
  "is_bound_message m = (m \<in> {low_message Height, high_message Height,
                                low_message Weight, high_message Weight})"

text \<open>
  A submission succeeds when both fields validate and the computation does not throw;
  \<open>succeeded s es\<close> says that some submission among the events \<open>es\<close>, run from \<open>s\<close>,
  succeeded.
\<close>

definition submit_ok :: "state \<Rightarrow> bool" where
  "submit_ok s = (validateField Height (height s) = None \<and> validateField Weight (weight s) = None
                  \<and> \<not> isl (compute (height s) (weight s)))"

fun succeeded :: "state \<Rightarrow> event list \<Rightarrow> bool" where
  "succeeded s [] = False"
| "succeeded s (e # es) = ((e = Submit \<and> submit_ok s) \<or> succeeded (step s e) es)"


text \<open>
  Rounding to one decimal place as the specification words it, half away from zero at
  the tenths digit, on exact rationals; the stored score is compared with it.
\<close>

definition spec_round1 :: "rat \<Rightarrow> rat" where
  "spec_round1 x = (if x < 0 then - 1 else 1) * of_int \<lfloor>10 * \<bar>x\<bar> + 1 / 2\<rfloor> / 10"

section \<open>Facts about rounding to binary64\<close>

lemma pow2_powi: "pow2 k = 2 powi k"
  by (simp add: pow2_def power_int_def inverse_eq_divide power_one_over)

lemma pow2_pos: "0 < pow2 k"
  by (simp add: pow2_def)

lemma pow2_add: "pow2 (a + b) = pow2 a * pow2 b"
  by (simp add: pow2_powi power_int_add)

lemma pow2_mono: "a \<le> b \<Longrightarrow> pow2 a \<le> pow2 b"
  by (simp add: pow2_powi power_int_increasing)

lemma pow2_strict_mono: "a < b \<Longrightarrow> pow2 a < pow2 b"
  by (simp add: pow2_powi power_int_strict_increasing)

lemma pow2_less_cancel: "pow2 a < pow2 b \<Longrightarrow> a < b"
  using pow2_mono [of b a] by (cases "a < b") auto

lemma pow2_diff: "pow2 (a - b) = pow2 a / pow2 b"
  using pow2_add [of "a - b" b] pow2_pos [of b] by (simp add: field_simps)

lemma pow2_nat: "pow2 (int n) = 2 ^ n"
  by (simp add: pow2_def)

lemma pow2_int_bounds:
  assumes "0 < p"
  shows "pow2 (bitlen p - 1) \<le> of_int p" and "of_int p < pow2 (bitlen p)"
proof -
  from bitlen_bounds [OF assms] have lo: "2 ^ nat (bitlen p - 1) \<le> p" and hi: "p < 2 ^ nat (bitlen p)"
    by auto
  have b1: "1 \<le> bitlen p"
    using assms bitlen_eq_zero_iff [of p] bitlen_nonneg [of p] by (cases "bitlen p = 0") auto
  have "(of_int (2 ^ nat (bitlen p - 1)) :: rat) \<le> of_int p"
    using lo by (simp only: of_int_le_iff)
  then show "pow2 (bitlen p - 1) \<le> of_int p"
    using b1 by (simp add: pow2_def)
  have "(of_int p :: rat) < of_int (2 ^ nat (bitlen p))"
    using hi by (simp only: of_int_less_iff)
  then show "of_int p < pow2 (bitlen p)"
    using b1 by (simp add: pow2_def)
qed

lemma expo_bounds:
  assumes "0 < a"
  shows "pow2 (expo a) \<le> a \<and> a < pow2 (expo a + 1)"
proof -
  obtain p q where pq: "quotient_of a = (p, q)" by (cases "quotient_of a")
  have qpos: "0 < q" using pq by (rule quotient_of_denom_pos)
  have a_eq: "a = of_int p / of_int q" using pq by (rule quotient_of_div)
  have ppos: "0 < p"
    using assms qpos a_eq by (simp add: zero_less_divide_iff)
  define d where "d = bitlen p - bitlen q"
  have plo: "pow2 (bitlen p - 1) \<le> of_int p" and phi: "of_int p < pow2 (bitlen p)"
    using pow2_int_bounds [OF ppos] by auto
  have qlo: "pow2 (bitlen q - 1) \<le> of_int q" and qhi: "of_int q < pow2 (bitlen q)"
    using pow2_int_bounds [OF qpos] by auto
  have qr: "(0::rat) < of_int q" using qpos by simp
  have up: "a < pow2 (d + 1)"
  proof -
    have "pow2 (d + 1) * of_int q \<ge> pow2 (d + 1) * pow2 (bitlen q - 1)"
      using qlo pow2_pos [of "d + 1"] by simp
    also have "pow2 (d + 1) * pow2 (bitlen q - 1) = pow2 (bitlen p)"
      by (simp add: d_def pow2_add [symmetric])
    finally have "of_int p < pow2 (d + 1) * of_int q" using phi by simp
    then have "of_int p / of_int q < pow2 (d + 1)" using qr by (simp add: pos_divide_less_eq)
    then show ?thesis by (simp only: a_eq)
  qed
  have lo: "pow2 (d - 1) < a"
  proof -
    have "pow2 (d - 1) * of_int q < pow2 (d - 1) * pow2 (bitlen q)"
      using qhi pow2_pos [of "d - 1"] by simp
    also have "pow2 (d - 1) * pow2 (bitlen q) = pow2 (bitlen p - 1)"
      by (simp add: d_def pow2_add [symmetric])
    finally have "pow2 (d - 1) * of_int q < of_int p" using plo by simp
    then have "pow2 (d - 1) < of_int p / of_int q" using qr by (simp add: pos_less_divide_eq)
    then show ?thesis by (simp only: a_eq)
  qed
  have e: "expo a = (if pow2 d \<le> a then d else d - 1)"
    by (simp add: expo_def pq d_def Let_def)
  show ?thesis
  proof (cases "pow2 d \<le> a")
    case True
    then show ?thesis using e up by simp
  next
    case False
    then show ?thesis using e lo by simp
  qed
qed

lemma expo_eqI:
  assumes "pow2 e \<le> a" and "a < pow2 (e + 1)"
  shows "expo a = e"
proof -
  have apos: "0 < a" using assms(1) pow2_pos [of e] by simp
  from expo_bounds [OF apos] have b: "pow2 (expo a) \<le> a" "a < pow2 (expo a + 1)" by auto
  have "pow2 e < pow2 (expo a + 1)" using assms(1) b(2) by simp
  then have 1: "e < expo a + 1" by (rule pow2_less_cancel)
  have "pow2 (expo a) < pow2 (e + 1)" using assms(2) b(1) by simp
  then have 2: "expo a < e + 1" by (rule pow2_less_cancel)
  from 1 2 show ?thesis by simp
qed

lemma round_even_of_int: "round_even (of_int n) = n"
  by (simp add: round_even_def)

lemma round_even_le: "t \<le> of_int n \<Longrightarrow> round_even t \<le> n"
proof -
  assume t: "t \<le> of_int n"
  have f: "\<lfloor>t\<rfloor> \<le> n" using t by (simp add: floor_le_iff)
  show ?thesis
  proof (cases "\<lfloor>t\<rfloor> = n")
    case True
    then have "of_int n \<le> t" by (metis of_int_floor_le)
    then have "t = of_int n" using t by simp
    then show ?thesis by (simp add: round_even_of_int)
  next
    case False
    then have "\<lfloor>t\<rfloor> + 1 \<le> n" using f by simp
    then show ?thesis by (simp add: round_even_def Let_def)
  qed
qed

lemma round_even_ge: "of_int n \<le> t \<Longrightarrow> n \<le> round_even t"
proof -
  assume t: "of_int n \<le> t"
  have f: "n \<le> \<lfloor>t\<rfloor>" using t by (simp add: le_floor_iff)
  then show ?thesis by (simp add: round_even_def Let_def)
qed

lemma round_even_close: "\<bar>of_int (round_even t) - t\<bar> \<le> 1 / 2"
proof -
  have 1: "of_int \<lfloor>t\<rfloor> \<le> t" and 2: "t < of_int \<lfloor>t\<rfloor> + 1" by linarith+
  show ?thesis using 1 2 by (auto simp add: round_even_def Let_def abs_le_iff)
qed

lemma fl_pos:
  "0 < x \<Longrightarrow> fl x = (let r = of_int (round_even (x / quantum x)) * quantum x
                       in if pow2 1024 \<le> r then PInf else Fin r)"
  by (simp add: fl_def Let_def quantum_def)

lemma quantum_pos: "0 < quantum x"
  by (simp add: quantum_def pow2_pos)

lemma pow2_nonneg_int: "0 \<le> k \<Longrightarrow> pow2 k = of_int (2 ^ nat k)"
  by (simp add: pow2_def)

lemma quantum_divides:
  assumes R: "R = of_int M * pow2 K" and M: "0 < M" "M < 2 ^ 53" and K: "- 1074 \<le> K"
    and big: "- 1022 < expo x \<Longrightarrow> pow2 (expo x) \<le> R"
  shows "\<exists>N. R = of_int N * quantum x"
proof -
  define e' where "e' = max (expo x) (- 1022)"
  have Kge: "e' - 52 \<le> K"
  proof (cases "- 1022 < expo x")
    case False
    then show ?thesis using K by (simp add: e'_def)
  next
    case True
    then have e': "e' = expo x" by (simp add: e'_def)
    show ?thesis
    proof (rule ccontr)
      assume "\<not> e' - 52 \<le> K"
      then have "K + 53 \<le> e'" by simp
      then have le: "pow2 (K + 53) \<le> pow2 e'" by (rule pow2_mono)
      have "(of_int M :: rat) < of_int (2 ^ 53)" using M(2) by (simp only: of_int_less_iff)
      then have "(of_int M :: rat) < pow2 53" by (simp add: pow2_def)
      then have "of_int M * pow2 K < pow2 53 * pow2 K" using pow2_pos [of K] by simp
      then have "R < pow2 (K + 53)" by (simp add: R pow2_add mult.commute)
      then have "R < pow2 (expo x)" using le e' by simp
      then show False using big [OF True] by simp
    qed
  qed
  have "pow2 K = pow2 (K - (e' - 52)) * pow2 (e' - 52)"
    by (simp add: pow2_add [symmetric])
  also have "pow2 (K - (e' - 52)) = of_int (2 ^ nat (K - (e' - 52)))"
    using Kge by (simp add: pow2_nonneg_int)
  finally have "R = of_int (M * 2 ^ nat (K - (e' - 52))) * quantum x"
    by (simp add: R quantum_def e'_def)
  then show ?thesis by blast
qed

lemma fl_le:
  assumes x: "0 < x" "x \<le> R" and R: "R = of_int M * pow2 K" and M: "M < 2 ^ 53"
    and K: "- 1074 \<le> K" and fin: "R < pow2 1024"
  shows "\<exists>y. fl x = Fin y \<and> 0 \<le> y \<and> y \<le> R"
proof -
  have Rpos: "0 < R" using x by simp
  have Mpos: "0 < M"
    using Rpos pow2_pos [of K] by (simp add: R zero_less_mult_iff)
  have big: "- 1022 < expo x \<Longrightarrow> pow2 (expo x) \<le> R"
    using expo_bounds [OF x(1)] x(2) by simp
  from quantum_divides [OF R Mpos M K big] obtain N where N: "R = of_int N * quantum x"
    by blast
  define n where "n = round_even (x / quantum x)"
  have "x / quantum x \<le> of_int N"
    using x(2) quantum_pos [of x] by (simp add: N pos_divide_le_eq)
  then have nN: "n \<le> N" unfolding n_def by (rule round_even_le)
  have "(of_int 0 :: rat) \<le> x / quantum x" using x(1) quantum_pos [of x] by simp
  then have n0: "0 \<le> n" unfolding n_def by (rule round_even_ge)
  have le: "of_int n * quantum x \<le> R"
    using nN quantum_pos [of x] by (simp add: N)
  have ge: "0 \<le> of_int n * quantum x"
    using n0 quantum_pos [of x] by simp
  have "fl x = Fin (of_int n * quantum x)"
    using le fin by (simp add: fl_pos [OF x(1)] n_def [symmetric] Let_def)
  then show ?thesis using le ge by simp
qed

lemma fl_ge:
  assumes R0: "0 < R" and x: "R \<le> x" and R: "R = of_int M * pow2 K" and M: "M < 2 ^ 53"
    and K: "- 1074 \<le> K"
  shows "fl x = PInf \<or> (\<exists>y. fl x = Fin y \<and> R \<le> y)"
proof -
  have xpos: "0 < x" using R0 x by simp
  have Mpos: "0 < M"
    using R0 pow2_pos [of K] by (simp add: R zero_less_mult_iff)
  define n where "n = round_even (x / quantum x)"
  have "R \<le> of_int n * quantum x"
  proof (cases "- 1022 < expo x \<and> R < pow2 (expo x)")
    case False
    then have big: "- 1022 < expo x \<Longrightarrow> pow2 (expo x) \<le> R" by auto
    from quantum_divides [OF R Mpos M K big] obtain N where N: "R = of_int N * quantum x"
      by blast
    have "of_int N \<le> x / quantum x"
      using x quantum_pos [of x] by (simp add: N pos_le_divide_eq)
    then have "N \<le> n" unfolding n_def by (rule round_even_ge)
    then show ?thesis using quantum_pos [of x] by (simp add: N)
  next
    case True
    then have q: "quantum x = pow2 (expo x - 52)" by (simp add: quantum_def)
    have "pow2 (expo x) \<le> x" using expo_bounds [OF xpos] by simp
    then have "pow2 (expo x) / pow2 (expo x - 52) \<le> x / quantum x"
      using pow2_pos [of "expo x - 52"] by (simp add: q divide_right_mono)
    also have "pow2 (expo x) / pow2 (expo x - 52) = pow2 52"
      by (simp add: pow2_diff [symmetric])
    also have "pow2 52 = of_int (2 ^ 52)" by (simp add: pow2_def)
    finally have "2 ^ 52 \<le> n" unfolding n_def by (rule round_even_ge)
    then have "(of_int (2 ^ 52) :: rat) \<le> of_int n" by (simp only: of_int_le_iff)
    then have "pow2 52 \<le> of_int n" by (simp add: pow2_def)
    then have "pow2 52 * pow2 (expo x - 52) \<le> of_int n * quantum x"
      using pow2_pos [of "expo x - 52"] by (simp add: q)
    then have "pow2 (expo x) \<le> of_int n * quantum x"
      by (simp add: pow2_add [symmetric])
    then show ?thesis using True by simp
  qed
  then show ?thesis
    by (simp add: fl_pos [OF xpos] n_def [symmetric] Let_def)
qed

lemma fl_between:
  assumes L0: "0 < L" and x: "L \<le> x" "x \<le> R"
    and L: "L = of_int M1 * pow2 K1" "M1 < 2 ^ 53" "- 1074 \<le> K1"
    and R: "R = of_int M2 * pow2 K2" "M2 < 2 ^ 53" "- 1074 \<le> K2" "R < pow2 1024"
  shows "\<exists>y. fl x = Fin y \<and> L \<le> y \<and> y \<le> R"
proof -
  have xpos: "0 < x" using L0 x by simp
  from fl_le [OF xpos x(2) R] obtain y where y: "fl x = Fin y" "y \<le> R" by blast
  from fl_ge [OF L0 x(1) L] y have "L \<le> y" by simp
  then show ?thesis using y by blast
qed

lemma fl_exact:
  assumes "0 < x" "x = of_int M * pow2 K" "M < 2 ^ 53" "- 1074 \<le> K" "x < pow2 1024"
  shows "fl x = Fin x"
proof -
  from fl_between [OF assms(1) order_refl order_refl assms(2-4) assms(2-5)]
  show ?thesis by auto
qed

lemma fl_nat: "n < 2 ^ 53 \<Longrightarrow> fl (of_nat n) = Fin (of_nat n)"
proof (cases "n = 0")
  case True
  then show ?thesis by (simp add: fl_def)
next
  case False
  assume n: "n < 2 ^ 53"
  have "(2::rat) ^ 53 < pow2 1024" by (simp add: pow2_def)
  moreover have "(of_nat n :: rat) < 2 ^ 53" using n by (metis of_nat_less_iff of_nat_numeral of_nat_power)
  ultimately have "(of_nat n :: rat) < pow2 1024" by simp
  moreover have "int n < 2 ^ 53" using n by (metis of_nat_less_iff of_nat_numeral of_nat_power)
  ultimately show ?thesis
    using False by (intro fl_exact [where M = "int n" and K = 0]) (simp_all add: pow2_def)
qed

lemma round_even_eqI: "\<bar>t - of_int n\<bar> < 1 / 2 \<Longrightarrow> round_even t = n"
proof -
  assume a: "\<bar>t - of_int n\<bar> < 1 / 2"
  have 1: "of_int \<lfloor>t\<rfloor> \<le> t" and 2: "t < of_int \<lfloor>t\<rfloor> + 1" by linarith+
  have "\<lfloor>t\<rfloor> = n \<or> \<lfloor>t\<rfloor> = n - 1"
  proof -
    have "of_int n - 1 < t" "t < of_int n + 1" using a by linarith+
    then have "n - 1 \<le> \<lfloor>t\<rfloor>" "\<lfloor>t\<rfloor> \<le> n"
      by (simp_all add: le_floor_iff floor_le_iff)
    then show ?thesis by auto
  qed
  then show ?thesis
  proof
    assume f: "\<lfloor>t\<rfloor> = n"
    then have "t - of_int n < 1 / 2" using a by linarith
    then show ?thesis using f by (simp add: round_even_def Let_def)
  next
    assume f: "\<lfloor>t\<rfloor> = n - 1"
    have "of_int n - 1 / 2 < t" using a by linarith
    then have "1 / 2 < t - of_int (n - 1)" by simp
    then show ?thesis by (simp add: f round_even_def Let_def)
  qed
qed

lemma fl_eqI:
  assumes "pow2 e \<le> x" "x < pow2 (e + 1)" "- 1022 \<le> e"
    and "\<bar>x / pow2 (e - 52) - of_int n\<bar> < 1 / 2"
    and "y = of_int n * pow2 (e - 52)" "y < pow2 1024"
  shows "fl x = Fin y"
proof -
  have xpos: "0 < x" using assms(1) pow2_pos [of e] by simp
  have e: "expo x = e" using assms(1,2) by (rule expo_eqI)
  have q: "quantum x = pow2 (e - 52)" using assms(3) by (simp add: quantum_def e max_def)
  have "round_even (x / pow2 (e - 52)) = n" using assms(4) by (rule round_even_eqI)
  then show ?thesis using assms(5,6) by (simp add: fl_pos [OF xpos] q Let_def)
qed

lemma fl_minus:
  "fl (- x) = (case fl x of Fin y \<Rightarrow> Fin (- y) | PInf \<Rightarrow> NInf | NInf \<Rightarrow> PInf | NaN \<Rightarrow> NaN)"
  by (cases "x = 0"; cases "0 < x") (auto simp add: fl_def Let_def)

lemma fl_numeral: "numeral k < (2::nat) ^ 53 \<Longrightarrow> fl (numeral k) = Fin (numeral k)"
  using fl_nat [of "numeral k"] by simp

lemma fl_zero: "fl 0 = Fin 0"
  by (simp add: fl_def)

lemma fl_one: "fl 1 = Fin 1"
  using fl_nat [of 1] by simp


section \<open>Facts about strings and validation\<close>

lemma js_Cons: "js (c # cs) = of_char c # js cs" and js_Nil: "js [] = []"
  by (simp_all add: js_def)

lemma dropWhile_ws_blank:
  assumes "trim v = []"
  shows "dropWhile is_ws v = []"
proof (rule ccontr)
  assume ne: "dropWhile is_ws v \<noteq> []"
  then have h: "\<not> is_ws (hd (dropWhile is_ws v))" by (rule hd_dropWhile)
  from assms have "dropWhile is_ws (rev (dropWhile is_ws v)) = []"
    by (simp add: trim_def)
  then have "\<forall>c \<in> set (rev (dropWhile is_ws v)). is_ws c"
    by (simp add: dropWhile_eq_Nil_conv)
  then have "is_ws (hd (dropWhile is_ws v))" using ne by simp
  then show False using h by simp
qed

lemma trim_blank_iff: "trim v = [] \<longleftrightarrow> (\<forall>c \<in> set v. is_ws c)"
proof
  assume "trim v = []"
  then have "dropWhile is_ws v = []" by (rule dropWhile_ws_blank)
  then show "\<forall>c \<in> set v. is_ws c" by (simp add: dropWhile_eq_Nil_conv)
next
  assume "\<forall>c \<in> set v. is_ws c"
  then have d: "dropWhile is_ws v = []" by (simp add: dropWhile_eq_Nil_conv)
  show "trim v = []" unfolding trim_def d by simp
qed

lemma parseFloat_blank: "trim v = [] \<Longrightarrow> parseFloat v = NaN"
  by (simp add: parseFloat_def decimal_literal_def dropWhile_ws_blank opt_sign_def js_Cons)

lemma validateField_cases:
  "validateField f v =
     (if trim v = [] then Some (required_message f)
      else case parseFloat v of
             NaN \<Rightarrow> Some (valid_message f)
           | NInf \<Rightarrow> Some (valid_message f)
           | PInf \<Rightarrow> Some (high_message f)
           | Fin x \<Rightarrow> if x \<le> 0 then Some (valid_message f)
                      else if x < lower_bound f then Some (low_message f)
                      else if upper_bound f < x then Some (high_message f)
                      else None)"
  by (cases f; cases "parseFloat v")
     (simp_all add: validateField_def required_message_def valid_message_def low_message_def
        high_message_def lower_bound_def upper_bound_def capitalised_def field_name_def
        toUpperCase_char_def isNaN_def js_le_def js_lt_def js_gt_def Let_def)

lemma validateField_None_iff:
  "validateField f v = None \<longleftrightarrow>
     (\<exists>x. parseFloat v = Fin x \<and> lower_bound f \<le> x \<and> x \<le> upper_bound f)"
proof (cases "trim v = []")
  case True
  then show ?thesis by (simp add: validateField_cases parseFloat_blank)
next
  case False
  have "0 < lower_bound f" by (cases f) (simp_all add: lower_bound_def)
  then show ?thesis using False
    by (cases "parseFloat v") (auto simp add: validateField_cases)
qed


section \<open>Facts about the form's state\<close>

lemma run_snoc: "run s (es @ [e]) = step (run s es) e"
  by (simp add: run_def)

lemma run_Cons: "run s (e # es) = run (step s e) es"
  by (simp add: run_def)

lemma run_Nil: "run s [] = s"
  by (simp add: run_def)

lemma calculateBMI_failed:
  assumes "validateField Height (height s) \<noteq> None \<or> validateField Weight (weight s) \<noteq> None"
  shows "calculateBMI s = s\<lparr>submitted := True,
           errors := \<lparr>err_height = validateField Height (height s),
                      err_weight = validateField Weight (weight s), err_general = None\<rparr>\<rparr>"
  using assms by (auto simp add: calculateBMI_def Let_def)

lemma compute_Inr:
  "isFinite (bmiValue h w) \<Longrightarrow>
     compute h w = Inr (parse_toFixed1 (bmiValue h w), categoryOf (bmiValue h w))"
  by (cases "bmiValue h w") (simp_all add: compute_def isFinite_def isNaN_def Let_def)

lemma compute_Inl: "\<not> isFinite (bmiValue h w) \<Longrightarrow> compute h w = Inl Invalid_value"
  by (simp add: compute_def Let_def)

lemma isl_compute: "isl (compute h w) \<longleftrightarrow> \<not> isFinite (bmiValue h w)"
  by (cases "isFinite (bmiValue h w)") (simp_all add: compute_Inr compute_Inl)

lemma calculateBMI_ok:
  assumes "validateField Height (height s) = None" "validateField Weight (weight s) = None"
    and "isFinite (bmiValue (height s) (weight s))"
  shows "calculateBMI s = s\<lparr>submitted := True,
           errors := \<lparr>err_height = None, err_weight = None, err_general = None\<rparr>,
           bmi := Some (parse_toFixed1 (bmiValue (height s) (weight s))),
           category := categoryOf (bmiValue (height s) (weight s))\<rparr>"
  using assms by (simp add: calculateBMI_def Let_def compute_Inr)

lemma calculateBMI_thrown:
  assumes "validateField Height (height s) = None" "validateField Weight (weight s) = None"
    and "\<not> isFinite (bmiValue (height s) (weight s))"
  shows "calculateBMI s = s\<lparr>submitted := True,
           errors := \<lparr>err_height = None, err_weight = None, err_general = Some general_message\<rparr>\<rparr>"
  using assms by (simp add: calculateBMI_def Let_def compute_Inl)

lemma submitted_calculateBMI: "submitted (calculateBMI s)"
  by (simp add: calculateBMI_def Let_def split: sum.splits prod.splits)

lemma submitted_handleInputChange: "submitted (handleInputChange f v s) = submitted s"
  by (simp add: handleInputChange_def Let_def)

lemma submitted_step: "submitted s \<Longrightarrow> submitted (step s e)"
  by (cases e) (simp_all add: step_def submitted_handleInputChange submitted_calculateBMI)

lemma submitted_run: "submitted s \<Longrightarrow> submitted (run s es)"
  by (induction es arbitrary: s) (simp_all add: run_Nil run_Cons submitted_step)

lemma submitted_run_init: "submitted (run init es) \<longleftrightarrow> Submit \<in> set es"
proof (induction es rule: rev_induct)
  case Nil
  then show ?case by (simp add: run_Nil init_def)
next
  case (snoc e es)
  show ?case
  proof (cases e)
    case (Change f v)
    then show ?thesis using snoc by (simp add: run_snoc step_def submitted_handleInputChange)
  next
    case Submit
    then show ?thesis by (simp add: run_snoc step_def submitted_calculateBMI)
  qed
qed

lemma handleInputChange_pristine:
  "\<not> submitted s \<Longrightarrow>
     handleInputChange f v s = (case f of Height \<Rightarrow> s\<lparr>height := v\<rparr> | Weight \<Rightarrow> s\<lparr>weight := v\<rparr>)"
  by (cases f) (simp_all add: handleInputChange_def)

lemma handleInputChange_submitted:
  "submitted s \<Longrightarrow>
     handleInputChange f v s =
       (case f of
          Height \<Rightarrow> s\<lparr>height := v, errors := (errors s)\<lparr>err_height := validateField Height v\<rparr>\<rparr>
        | Weight \<Rightarrow> s\<lparr>weight := v, errors := (errors s)\<lparr>err_weight := validateField Weight v\<rparr>\<rparr>)"
  by (cases f) (simp_all add: handleInputChange_def set_error_def)

lemma result_handleInputChange:
  "bmi (handleInputChange f v s) = bmi s" "category (handleInputChange f v s) = category s"
  by (simp_all add: handleInputChange_def Let_def)

lemma bmi_calculateBMI:
  "bmi (calculateBMI s) = (if submit_ok s then Some (parse_toFixed1 (bmiValue (height s) (weight s)))
                           else bmi s)"
proof (cases "validateField Height (height s) = None \<and> validateField Weight (weight s) = None")
  case False
  then have "\<not> submit_ok s" by (auto simp add: submit_ok_def)
  moreover from False
  have "validateField Height (height s) \<noteq> None \<or> validateField Weight (weight s) \<noteq> None"
    by (simp only: de_Morgan_conj)
  ultimately show ?thesis by (simp only: calculateBMI_failed) simp
next
  case True
  then show ?thesis
    by (cases "isFinite (bmiValue (height s) (weight s))")
       (simp_all add: calculateBMI_ok calculateBMI_thrown submit_ok_def isl_compute)
qed

lemma category_calculateBMI:
  "category (calculateBMI s) = (if submit_ok s then categoryOf (bmiValue (height s) (weight s))
                                else category s)"
proof (cases "validateField Height (height s) = None \<and> validateField Weight (weight s) = None")
  case False
  then have "\<not> submit_ok s" by (auto simp add: submit_ok_def)
  moreover from False
  have "validateField Height (height s) \<noteq> None \<or> validateField Weight (weight s) \<noteq> None"
    by (simp only: de_Morgan_conj)
  ultimately show ?thesis by (simp only: calculateBMI_failed) simp
next
  case True
  then show ?thesis
    by (cases "isFinite (bmiValue (height s) (weight s))")
       (simp_all add: calculateBMI_ok calculateBMI_thrown submit_ok_def isl_compute)
qed

lemma bmi_step: "bmi (step s e) \<noteq> None \<longleftrightarrow> bmi s \<noteq> None \<or> (e = Submit \<and> submit_ok s)"
  by (cases e) (simp_all add: step_def result_handleInputChange bmi_calculateBMI)

lemma bmi_run: "bmi (run s es) \<noteq> None \<longleftrightarrow> bmi s \<noteq> None \<or> succeeded s es"
proof (induction es arbitrary: s)
  case Nil
  then show ?case by (simp add: run_Nil)
next
  case (Cons e es)
  show ?case unfolding run_Cons Cons.IH bmi_step by auto
qed

lemma categoryOf_names:
  "categoryOf b \<in> {''Underweight'', ''Normal weight'', ''Overweight'', ''Obese''}"
  by (simp add: categoryOf_def)

lemma category_step:
  assumes "bmi s = None \<or> category s \<in> {''Underweight'', ''Normal weight'', ''Overweight'', ''Obese''}"
  shows "bmi (step s e) = None \<or>
         category (step s e) \<in> {''Underweight'', ''Normal weight'', ''Overweight'', ''Obese''}"
proof (cases e)
  case (Change f v)
  then show ?thesis using assms by (simp add: step_def result_handleInputChange)
next
  case Submit
  show ?thesis
  proof (cases "submit_ok s")
    case True
    then show ?thesis using categoryOf_names [of "bmiValue (height s) (weight s)"]
      by (simp add: Submit step_def category_calculateBMI)
  next
    case False
    then show ?thesis using assms
      by (simp add: Submit step_def category_calculateBMI bmi_calculateBMI)
  qed
qed

lemma category_run:
  "bmi (run init es) = None \<or>
   category (run init es) \<in> {''Underweight'', ''Normal weight'', ''Overweight'', ''Obese''}"
proof (induction es rule: rev_induct)
  case Nil
  then show ?case by (simp add: run_Nil init_def)
next
  case (snoc e es)
  then show ?case unfolding run_snoc by (rule category_step)
qed

lemma categoryOf_Fin:
  "categoryOf (Fin r) = (if r < 37 / 2 then ''Underweight'' else if r < 25 then ''Normal weight''
                         else if r < 30 then ''Overweight'' else ''Obese'')"
  by (simp add: categoryOf_def js_lt_def)

lemma validateField_empty: "validateField f [] = Some (required_message f)"
  by (simp add: validateField_cases trim_def)



section \<open>Evaluation on concrete inputs\<close>

text \<open>
  Concrete inputs are evaluated by rewriting: \<open>parseFloat\<close> on a literal unfolds to the
  rounding of a decimal, and each rounding is settled by \<open>fl_eqI\<close> from its binary
  exponent and its 53-bit significand.
\<close>

lemmas parse_simps = parseFloat_def decimal_literal_def js_Cons js_Nil opt_sign_def is_ws_def
  is_digit_def digits_val_def exponent_part_def pow10_def Let_def

lemma toFixed1_eqI:
  assumes "0 \<le> x" "of_nat n \<le> 10 * x + 1 / 2" "10 * x + 1 / 2 < of_nat n + 1"
  shows "toFixed1 x = digits (n div 10) @ js ''.'' @ digits (n mod 10)"
proof -
  have "\<lfloor>10 * x + 1 / 2\<rfloor> = int n"
    using assms(2,3) by (intro floor_unique) simp_all
  then show ?thesis using assms(1) by (simp add: toFixed1_def Let_def)
qed

lemma parseFloat_minus5: "parseFloat (js ''-5'') = Fin (- 5)"
  by (simp add: parse_simps fl_minus fl_numeral)

lemma parseFloat_0: "parseFloat (js ''0'') = Fin 0"
  by (simp add: parse_simps fl_zero)

lemma parseFloat_Infinity: "parseFloat (js ''Infinity'') = PInf"
  by (simp add: parse_simps)

lemma validateField_Fin:
  "parseFloat v = Fin x \<Longrightarrow>
     validateField f v = (if x \<le> 0 then Some (valid_message f)
                          else if x < lower_bound f then Some (low_message f)
                          else if upper_bound f < x then Some (high_message f)
                          else None)"
  using parseFloat_blank [of v] by (auto simp add: validateField_cases)

lemma validateField_PInf: "parseFloat v = PInf \<Longrightarrow> validateField f v = Some (high_message f)"
  using parseFloat_blank [of v] by (auto simp add: validateField_cases)

lemma run_filled:
  "run init [Change Height h, Change Weight w, Submit] = calculateBMI (init\<lparr>height := h, weight := w\<rparr>)"
  by (simp add: run_def step_def handleInputChange_def init_def)

lemma parseFloat_200: "parseFloat (js ''200'') = Fin 200"
  apply (simp add: parse_simps)
  apply (rule fl_eqI [where e = "7" and n = 7036874417766400])
     apply (simp_all add: pow2_def)
  done

lemma parseFloat_80: "parseFloat (js ''80'') = Fin 80"
  apply (simp add: parse_simps)
  apply (rule fl_eqI [where e = "6" and n = 5629499534213120])
     apply (simp_all add: pow2_def)
  done

lemma bmiValue_200_80: "bmiValue (js ''200'') (js ''80'') = Fin 20"
proof -
  have m: "js_div (Fin 200) (Fin 100) = Fin 2"
    apply (simp add: js_div_def)
    apply (rule fl_eqI [where e = "1" and n = 4503599627370496])
         apply (simp_all add: pow2_def)
    done
  have mm: "js_mul (Fin 2) (Fin 2) = Fin 4"
    apply (simp add: js_mul_def)
    apply (rule fl_eqI [where e = "2" and n = 4503599627370496])
         apply (simp_all add: pow2_def)
    done
  have b: "js_div (Fin 80) (Fin 4) = Fin 20"
    apply (simp add: js_div_def)
    apply (rule fl_eqI [where e = "4" and n = 5629499534213120])
         apply (simp_all add: pow2_def)
    done
  show ?thesis by (simp only: bmiValue_def Let_def parseFloat_200 parseFloat_80 m mm b)
qed

lemma parseFloat_20p0: "parseFloat (js ''20.0'') = Fin 20"
  apply (simp add: parse_simps)
  apply (rule fl_eqI [where e = "4" and n = 5629499534213120])
     apply (simp_all add: pow2_def)
  done

lemma display_200_80: "parse_toFixed1 (Fin 20) = Fin 20"
proof -
  have "toFixed1 (20) = digits (200 div 10) @ js ''.'' @ digits (200 mod 10)"
    by (rule toFixed1_eqI) simp_all
  also have "\<dots> = js ''20.0''"
    by (simp add: digits.simps js_Cons js_Nil)
  finally have t: "toFixed1 (20) = js ''20.0''" .
  show ?thesis by (simp add: parse_toFixed1_def t parseFloat_20p0)
qed

lemma parseFloat_170: "parseFloat (js ''170'') = Fin 170"
  apply (simp add: parse_simps)
  apply (rule fl_eqI [where e = "7" and n = 5981343255101440])
     apply (simp_all add: pow2_def)
  done

lemma parseFloat_70: "parseFloat (js ''70'') = Fin 70"
  apply (simp add: parse_simps)
  apply (rule fl_eqI [where e = "6" and n = 4925812092436480])
     apply (simp_all add: pow2_def)
  done

lemma bmiValue_170_70: "bmiValue (js ''170'') (js ''70'') = Fin (1704433249978021 / 70368744177664)"
proof -
  have m: "js_div (Fin 170) (Fin 100) = Fin (7656119366529843 / 4503599627370496)"
    apply (simp add: js_div_def)
    apply (rule fl_eqI [where e = "0" and n = 7656119366529843])
         apply (simp_all add: pow2_def)
    done
  have mm: "js_mul (Fin (7656119366529843 / 4503599627370496)) (Fin (7656119366529843 / 4503599627370496)) = Fin (3253850730775183 / 1125899906842624)"
    apply (simp add: js_mul_def)
    apply (rule fl_eqI [where e = "1" and n = 6507701461550366])
         apply (simp_all add: pow2_def)
    done
  have b: "js_div (Fin 70) (Fin (3253850730775183 / 1125899906842624)) = Fin (1704433249978021 / 70368744177664)"
    apply (simp add: js_div_def)
    apply (rule fl_eqI [where e = "4" and n = 6817732999912084])
         apply (simp_all add: pow2_def)
    done
  show ?thesis by (simp only: bmiValue_def Let_def parseFloat_170 parseFloat_70 m mm b)
qed

lemma parseFloat_24p2: "parseFloat (js ''24.2'') = Fin (6811694436397875 / 281474976710656)"
  apply (simp add: parse_simps)
  apply (rule fl_eqI [where e = "4" and n = 6811694436397875])
     apply (simp_all add: pow2_def)
  done

lemma display_170_70: "parse_toFixed1 (Fin (1704433249978021 / 70368744177664)) = Fin (6811694436397875 / 281474976710656)"
proof -
  have "toFixed1 (1704433249978021 / 70368744177664) = digits (242 div 10) @ js ''.'' @ digits (242 mod 10)"
    by (rule toFixed1_eqI) simp_all
  also have "\<dots> = js ''24.2''"
    by (simp add: digits.simps js_Cons js_Nil)
  finally have t: "toFixed1 (1704433249978021 / 70368744177664) = js ''24.2''" .
  show ?thesis by (simp add: parse_toFixed1_def t parseFloat_24p2)
qed

lemma parseFloat_71p825: "parseFloat (js ''71.825'') = Fin (5054235050560717 / 70368744177664)"
  apply (simp add: parse_simps)
  apply (rule fl_eqI [where e = "6" and n = 5054235050560717])
     apply (simp_all add: pow2_def)
  done

lemma bmiValue_170_71p825: "bmiValue (js ''170'') (js ''71.825'') = Fin (6995481038838363 / 281474976710656)"
proof -
  have m: "js_div (Fin 170) (Fin 100) = Fin (7656119366529843 / 4503599627370496)"
    apply (simp add: js_div_def)
    apply (rule fl_eqI [where e = "0" and n = 7656119366529843])
         apply (simp_all add: pow2_def)
    done
  have mm: "js_mul (Fin (7656119366529843 / 4503599627370496)) (Fin (7656119366529843 / 4503599627370496)) = Fin (3253850730775183 / 1125899906842624)"
    apply (simp add: js_mul_def)
    apply (rule fl_eqI [where e = "1" and n = 6507701461550366])
         apply (simp_all add: pow2_def)
    done
  have b: "js_div (Fin (5054235050560717 / 70368744177664)) (Fin (3253850730775183 / 1125899906842624)) = Fin (6995481038838363 / 281474976710656)"
    apply (simp add: js_div_def)
    apply (rule fl_eqI [where e = "4" and n = 6995481038838363])
         apply (simp_all add: pow2_def)
    done
  show ?thesis by (simp only: bmiValue_def Let_def parseFloat_170 parseFloat_71p825 m mm b)
qed

lemma parseFloat_24p9: "parseFloat (js ''24.9'') = Fin (3504363460047667 / 140737488355328)"
  apply (simp add: parse_simps)
  apply (rule fl_eqI [where e = "4" and n = 7008726920095334])
     apply (simp_all add: pow2_def)
  done

lemma display_170_71p825: "parse_toFixed1 (Fin (6995481038838363 / 281474976710656)) = Fin (3504363460047667 / 140737488355328)"
proof -
  have "toFixed1 (6995481038838363 / 281474976710656) = digits (249 div 10) @ js ''.'' @ digits (249 mod 10)"
    by (rule toFixed1_eqI) simp_all
  also have "\<dots> = js ''24.9''"
    by (simp add: digits.simps js_Cons js_Nil)
  finally have t: "toFixed1 (6995481038838363 / 281474976710656) = js ''24.9''" .
  show ?thesis by (simp add: parse_toFixed1_def t parseFloat_24p9)
qed

lemma parseFloat_100: "parseFloat (js ''100'') = Fin 100"
  apply (simp add: parse_simps)
  apply (rule fl_eqI [where e = "6" and n = 7036874417766400])
     apply (simp_all add: pow2_def)
  done

lemma parseFloat_24p96: "parseFloat (js ''24.96'') = Fin (3512807709348987 / 140737488355328)"
  apply (simp add: parse_simps)
  apply (rule fl_eqI [where e = "4" and n = 7025615418697974])
     apply (simp_all add: pow2_def)
  done

lemma bmiValue_100_24p96: "bmiValue (js ''100'') (js ''24.96'') = Fin (3512807709348987 / 140737488355328)"
proof -
  have m: "js_div (Fin 100) (Fin 100) = Fin 1"
    apply (simp add: js_div_def)
    apply (rule fl_eqI [where e = "0" and n = 4503599627370496])
         apply (simp_all add: pow2_def)
    done
  have mm: "js_mul (Fin 1) (Fin 1) = Fin 1"
    apply (simp add: js_mul_def)
    apply (rule fl_eqI [where e = "0" and n = 4503599627370496])
         apply (simp_all add: pow2_def)
    done
  have b: "js_div (Fin (3512807709348987 / 140737488355328)) (Fin 1) = Fin (3512807709348987 / 140737488355328)"
    apply (simp add: js_div_def)
    apply (rule fl_eqI [where e = "4" and n = 7025615418697974])
         apply (simp_all add: pow2_def)
    done
  show ?thesis by (simp only: bmiValue_def Let_def parseFloat_100 parseFloat_24p96 m mm b)
qed

lemma parseFloat_25p0: "parseFloat (js ''25.0'') = Fin 25"
  apply (simp add: parse_simps)
  apply (rule fl_eqI [where e = "4" and n = 7036874417766400])
     apply (simp_all add: pow2_def)
  done

lemma display_100_24p96: "parse_toFixed1 (Fin (3512807709348987 / 140737488355328)) = Fin 25"
proof -
  have "toFixed1 (3512807709348987 / 140737488355328) = digits (250 div 10) @ js ''.'' @ digits (250 mod 10)"
    by (rule toFixed1_eqI) simp_all
  also have "\<dots> = js ''25.0''"
    by (simp add: digits.simps js_Cons js_Nil)
  finally have t: "toFixed1 (3512807709348987 / 140737488355328) = js ''25.0''" .
  show ?thesis by (simp add: parse_toFixed1_def t parseFloat_25p0)
qed

lemma parseFloat_250: "parseFloat (js ''250'') = Fin 250"
  apply (simp add: parse_simps)
  apply (rule fl_eqI [where e = "7" and n = 8796093022208000])
     apply (simp_all add: pow2_def)
  done

lemma parseFloat_22p1875: "parseFloat (js ''22.1875'') = Fin (355 / 16)"
  apply (simp add: parse_simps)
  apply (rule fl_eqI [where e = "4" and n = 6245226045767680])
     apply (simp_all add: pow2_def)
  done

lemma bmiValue_250_22p1875: "bmiValue (js ''250'') (js ''22.1875'') = Fin (3996944669291315 / 1125899906842624)"
proof -
  have m: "js_div (Fin 250) (Fin 100) = Fin (5 / 2)"
    apply (simp add: js_div_def)
    apply (rule fl_eqI [where e = "1" and n = 5629499534213120])
         apply (simp_all add: pow2_def)
    done
  have mm: "js_mul (Fin (5 / 2)) (Fin (5 / 2)) = Fin (25 / 4)"
    apply (simp add: js_mul_def)
    apply (rule fl_eqI [where e = "2" and n = 7036874417766400])
         apply (simp_all add: pow2_def)
    done
  have b: "js_div (Fin (355 / 16)) (Fin (25 / 4)) = Fin (3996944669291315 / 1125899906842624)"
    apply (simp add: js_div_def)
    apply (rule fl_eqI [where e = "1" and n = 7993889338582630])
         apply (simp_all add: pow2_def)
    done
  show ?thesis by (simp only: bmiValue_def Let_def parseFloat_250 parseFloat_22p1875 m mm b)
qed

lemma parseFloat_3p5: "parseFloat (js ''3.5'') = Fin (7 / 2)"
  apply (simp add: parse_simps)
  apply (rule fl_eqI [where e = "1" and n = 7881299347898368])
     apply (simp_all add: pow2_def)
  done

lemma display_250_22p1875: "parse_toFixed1 (Fin (3996944669291315 / 1125899906842624)) = Fin (7 / 2)"
proof -
  have "toFixed1 (3996944669291315 / 1125899906842624) = digits (35 div 10) @ js ''.'' @ digits (35 mod 10)"
    by (rule toFixed1_eqI) simp_all
  also have "\<dots> = js ''3.5''"
    by (simp add: digits.simps js_Cons js_Nil)
  finally have t: "toFixed1 (3996944669291315 / 1125899906842624) = js ''3.5''" .
  show ?thesis by (simp add: parse_toFixed1_def t parseFloat_3p5)
qed


lemma run_200_80:
  "run init [Change Height (js ''200''), Change Weight (js ''80''), Submit] =
     \<lparr>height = js ''200'', weight = js ''80'', bmi = Some (Fin 20), category = ''Normal weight'',
      errors = \<lparr>err_height = None, err_weight = None, err_general = None\<rparr>, submitted = True\<rparr>"
proof -
  have v: "validateField Height (js ''200'') = None" "validateField Weight (js ''80'') = None"
    by (simp_all add: validateField_Fin parseFloat_200 parseFloat_80 lower_bound_def upper_bound_def)
  show ?thesis
    unfolding run_filled
    by (subst calculateBMI_ok)
       (simp_all add: v bmiValue_200_80 display_200_80 isFinite_def categoryOf_Fin init_def)
qed

lemma run_170_70:
  "run init [Change Height (js ''170''), Change Weight (js ''70''), Submit] =
     \<lparr>height = js ''170'', weight = js ''70'',
      bmi = Some (Fin (6811694436397875 / 281474976710656)), category = ''Normal weight'',
      errors = \<lparr>err_height = None, err_weight = None, err_general = None\<rparr>, submitted = True\<rparr>"
proof -
  have v: "validateField Height (js ''170'') = None" "validateField Weight (js ''70'') = None"
    by (simp_all add: validateField_Fin parseFloat_170 parseFloat_70 lower_bound_def upper_bound_def)
  show ?thesis
    unfolding run_filled
    by (subst calculateBMI_ok)
       (simp_all add: v bmiValue_170_70 display_170_70 isFinite_def categoryOf_Fin init_def)
qed

lemma validateField_minus5: "validateField Weight (js ''-5'') = Some ''Please enter a valid weight''"
  by (simp add: validateField_Fin parseFloat_minus5 valid_message_def)

lemma parseFloat_abc: "parseFloat (js ''abc'') = NaN"
  by (simp add: parse_simps)

lemma trim_space: "trim (js '' '') = []"
  by (simp add: trim_def js_Cons js_Nil is_ws_def)

lemma parseFloat_50: "parseFloat (js ''50'') = Fin 50"
  apply (simp add: parse_simps)
  apply (rule fl_eqI [where e = "5" and n = 7036874417766400])
     apply (simp_all add: pow2_def)
  done

lemma parseFloat_20: "parseFloat (js ''20'') = Fin 20"
  apply (simp add: parse_simps)
  apply (rule fl_eqI [where e = "4" and n = 5629499534213120])
     apply (simp_all add: pow2_def)
  done

lemma parseFloat_500: "parseFloat (js ''500'') = Fin 500"
  apply (simp add: parse_simps)
  apply (rule fl_eqI [where e = "8" and n = 8796093022208000])
     apply (simp_all add: pow2_def)
  done

lemma parseFloat_49p9: "parseFloat (js ''49.9'') = Fin (7022800668930867 / 140737488355328)"
  apply (simp add: parse_simps)
  apply (rule fl_eqI [where e = "5" and n = 7022800668930867])
     apply (simp_all add: pow2_def)
  done

lemma parseFloat_250p1: "parseFloat (js ''250.1'') = Fin (8799611459416883 / 35184372088832)"
  apply (simp add: parse_simps)
  apply (rule fl_eqI [where e = "7" and n = 8799611459416883])
     apply (simp_all add: pow2_def)
  done

lemma parseFloat_19p9: "parseFloat (js ''19.9'') = Fin (2800676018271027 / 140737488355328)"
  apply (simp add: parse_simps)
  apply (rule fl_eqI [where e = "4" and n = 5601352036542054])
     apply (simp_all add: pow2_def)
  done

lemma parseFloat_500p1: "parseFloat (js ''500.1'') = Fin (4398926120406221 / 8796093022208)"
  apply (simp add: parse_simps)
  apply (rule fl_eqI [where e = "8" and n = 8797852240812442])
     apply (simp_all add: pow2_def)
  done

lemma run_170_71p825:
  "run init [Change Height (js ''170''), Change Weight (js ''71.825''), Submit] =
     \<lparr>height = js ''170'', weight = js ''71.825'', bmi = Some (Fin (3504363460047667 / 140737488355328)), category = ''Normal weight'',
      errors = \<lparr>err_height = None, err_weight = None, err_general = None\<rparr>, submitted = True\<rparr>"
proof -
  have v: "validateField Height (js ''170'') = None" "validateField Weight (js ''71.825'') = None"
    using validateField_Fin [OF parseFloat_170, of Height]
      validateField_Fin [OF parseFloat_71p825, of Weight]
    by (simp_all add: lower_bound_def upper_bound_def)
  show ?thesis
    unfolding run_filled
    by (subst calculateBMI_ok)
       (simp_all add: v bmiValue_170_71p825 display_170_71p825 isFinite_def categoryOf_Fin init_def)
qed

lemma run_100_24p96:
  "run init [Change Height (js ''100''), Change Weight (js ''24.96''), Submit] =
     \<lparr>height = js ''100'', weight = js ''24.96'', bmi = Some (Fin 25), category = ''Normal weight'',
      errors = \<lparr>err_height = None, err_weight = None, err_general = None\<rparr>, submitted = True\<rparr>"
proof -
  have v: "validateField Height (js ''100'') = None" "validateField Weight (js ''24.96'') = None"
    using validateField_Fin [OF parseFloat_100, of Height]
      validateField_Fin [OF parseFloat_24p96, of Weight]
    by (simp_all add: lower_bound_def upper_bound_def)
  show ?thesis
    unfolding run_filled
    by (subst calculateBMI_ok)
       (simp_all add: v bmiValue_100_24p96 display_100_24p96 isFinite_def categoryOf_Fin init_def)
qed

lemma run_250_22p1875:
  "run init [Change Height (js ''250''), Change Weight (js ''22.1875''), Submit] =
     \<lparr>height = js ''250'', weight = js ''22.1875'', bmi = Some (Fin (7 / 2)), category = ''Underweight'',
      errors = \<lparr>err_height = None, err_weight = None, err_general = None\<rparr>, submitted = True\<rparr>"
proof -
  have v: "validateField Height (js ''250'') = None" "validateField Weight (js ''22.1875'') = None"
    using validateField_Fin [OF parseFloat_250, of Height]
      validateField_Fin [OF parseFloat_22p1875, of Weight]
    by (simp_all add: lower_bound_def upper_bound_def)
  show ?thesis
    unfolding run_filled
    by (subst calculateBMI_ok)
       (simp_all add: v bmiValue_250_22p1875 display_250_22p1875 isFinite_def categoryOf_Fin init_def)
qed

lemma fl_18_5: "fl (18 / 5) = Fin (8106479329266893 / 2251799813685248)"
  apply (rule fl_eqI [where e = 1 and n = 8106479329266893])
       apply (simp_all add: pow2_def)
  done


lemma spec_round1_eqI:
  assumes "0 \<le> x" "of_int n \<le> 10 * x + 1 / 2" "10 * x + 1 / 2 < of_int n + 1"
  shows "spec_round1 x = of_int n / 10"
proof -
  have "\<lfloor>10 * x + 1 / 2\<rfloor> = n"
    using assms(2,3) by (intro floor_unique) simp_all
  then show ?thesis using assms(1) by (simp add: spec_round1_def)
qed

lemma spec_round1_71_20: "spec_round1 (71 / 20) = 18 / 5"
  using spec_round1_eqI [of "71 / 20" 36] by simp

lemma spec_round1_170_70: "spec_round1 (1704433249978021 / 70368744177664) = 121 / 5"
  using spec_round1_eqI [of "1704433249978021 / 70368744177664" 242] by simp

lemma parseFloat_160: "parseFloat (js ''160'') = Fin 160"
  apply (simp add: parse_simps)
  apply (rule fl_eqI [where e = "7" and n = 5629499534213120])
       apply (simp_all add: pow2_def)
  done

lemma parseFloat_64: "parseFloat (js ''64'') = Fin 64"
  apply (simp add: parse_simps)
  apply (rule fl_eqI [where e = "6" and n = 4503599627370496])
       apply (simp_all add: pow2_def)
  done

lemma bmiValue_160_64: "bmiValue (js ''160'') (js ''64'') = Fin (7036874417766399 / 281474976710656)"
proof -
  have m: "js_div (Fin 160) (Fin 100) = Fin (3602879701896397 / 2251799813685248)"
    apply (simp add: js_div_def)
    apply (rule fl_eqI [where e = "0" and n = 7205759403792794])
         apply (simp_all add: pow2_def)
    done
  have mm: "js_mul (Fin (3602879701896397 / 2251799813685248)) (Fin (3602879701896397 / 2251799813685248)) = Fin (1441151880758559 / 562949953421312)"
    apply (simp add: js_mul_def)
    apply (rule fl_eqI [where e = "1" and n = 5764607523034236])
         apply (simp_all add: pow2_def)
    done
  have b: "js_div (Fin 64) (Fin (1441151880758559 / 562949953421312)) = Fin (7036874417766399 / 281474976710656)"
    apply (simp add: js_div_def)
    apply (rule fl_eqI [where e = "4" and n = 7036874417766399])
         apply (simp_all add: pow2_def)
    done
  show ?thesis by (simp only: bmiValue_def Let_def parseFloat_160 parseFloat_64 m mm b)
qed

lemma display_160_64: "parse_toFixed1 (Fin (7036874417766399 / 281474976710656)) = Fin 25"
proof -
  have "toFixed1 (7036874417766399 / 281474976710656) = digits (250 div 10) @ js ''.'' @ digits (250 mod 10)"
    by (rule toFixed1_eqI) simp_all
  also have "\<dots> = js ''25.0''"
    by (simp add: digits.simps js_Cons js_Nil)
  finally have t: "toFixed1 (7036874417766399 / 281474976710656) = js ''25.0''" .
  show ?thesis by (simp add: parse_toFixed1_def t parseFloat_25p0)
qed

lemma run_160_64:
  "run init [Change Height (js ''160''), Change Weight (js ''64''), Submit] =
     \<lparr>height = js ''160'', weight = js ''64'', bmi = Some (Fin 25), category = ''Normal weight'',
      errors = \<lparr>err_height = None, err_weight = None, err_general = None\<rparr>, submitted = True\<rparr>"
proof -
  have v: "validateField Height (js ''160'') = None" "validateField Weight (js ''64'') = None"
    using validateField_Fin [OF parseFloat_160, of Height]
      validateField_Fin [OF parseFloat_64, of Weight]
    by (simp_all add: lower_bound_def upper_bound_def)
  show ?thesis
    unfolding run_filled
    by (subst calculateBMI_ok)
       (simp_all add: v bmiValue_160_64 display_160_64 isFinite_def categoryOf_Fin init_def)
qed

lemma bmiValue_0_70: "bmiValue (js ''0'') (js ''70'') = PInf"
  by (simp add: bmiValue_def Let_def parseFloat_0 parseFloat_70 js_div_def js_mul_def fl_zero
        of_sign_def signum_def)

lemma scale_24p2:
  "js_mul (js_div (js_sub (Fin (6811694436397875 / 281474976710656)) (Fin 10)) (Fin 30)) (Fin 100) = Fin (6661574448818859 / 140737488355328)"
proof -
  have d: "js_sub (Fin (6811694436397875 / 281474976710656)) (Fin 10) = Fin (3996944669291315 / 281474976710656)"
    apply (simp add: js_sub_def)
    apply (rule fl_eqI [where e = "3" and n = 7993889338582630])
         apply (simp_all add: pow2_def)
    done
  have q: "js_div (Fin (3996944669291315 / 281474976710656)) (Fin 30) = Fin (8526815294488139 / 18014398509481984)"
    apply (simp add: js_div_def)
    apply (rule fl_eqI [where e = "- 2" and n = 8526815294488139])
         apply (simp_all add: pow2_def)
    done
  have p: "js_mul (Fin (8526815294488139 / 18014398509481984)) (Fin 100) = Fin (6661574448818859 / 140737488355328)"
    apply (simp add: js_mul_def)
    apply (rule fl_eqI [where e = "5" and n = 6661574448818859])
         apply (simp_all add: pow2_def)
    done
  show ?thesis by (simp only: d q p)
qed


section \<open>Printing a score and reading it back\<close>

text \<open>
  \<open>toFixed1\<close> prints digits, a point and one digit; \<open>parseFloat\<close> reads exactly these
  back, so the composition rounds to a tenth and then to binary64.
\<close>

lemma digits_digit: "c \<in> set (digits n) \<Longrightarrow> is_digit c"
proof (induction n rule: digits.induct)
  case (1 n)
  show ?case
  proof (cases "n < 10")
    case True
    then show ?thesis using "1.prems" by (simp add: digits.simps [of n] is_digit_def)
  next
    case False
    have "n mod 10 < 10" by simp
    then have "is_digit (48 + n mod 10)" by (simp add: is_digit_def)
    then show ?thesis using False "1.prems" "1.IH"
      by (auto simp add: digits.simps [of n])
  qed
qed

lemma digits_Cons: "\<exists>c cs. digits n = c # cs \<and> is_digit c"
proof -
  have "digits n \<noteq> []" by (subst digits.simps) simp
  then obtain c cs where d: "digits n = c # cs" by (cases "digits n") auto
  then have "c \<in> set (digits n)" by simp
  then have "is_digit c" by (rule digits_digit)
  then show ?thesis using d by blast
qed

lemma digits_val_snoc: "digits_val (xs @ [c]) = 10 * digits_val xs + (c - 48)"
  by (simp add: digits_val_def)

lemma digits_val_digits: "digits_val (digits n) = n"
proof (induction n rule: digits.induct)
  case (1 n)
  show ?case
  proof (cases "n < 10")
    case True
    then show ?thesis by (simp add: digits.simps [of n] digits_val_def)
  next
    case False
    then show ?thesis using "1.IH"
      by (simp add: digits.simps [of n] digits_val_snoc)
  qed
qed

lemma is_digit_not_ws: "is_digit c \<Longrightarrow> \<not> is_ws c"
  by (auto simp add: is_digit_def is_ws_def)

lemma decimal_literal_digits:
  assumes "d < 10"
  shows "decimal_literal (digits k @ js ''.'' @ digits d) = Some (of_nat (10 * k + d) / 10)"
proof -
  have all: "\<forall>c \<in> set (digits k). is_digit c" using digits_digit by blast
  have dd: "digits d = [48 + d]" using assms by (simp add: digits.simps [of d])
  have dig: "is_digit (48 + d)" using assms by (simp add: is_digit_def)
  have ip: "takeWhile is_digit (digits k @ js ''.'' @ digits d) = digits k"
    using all by (simp add: js_Cons js_Nil is_digit_def)
  have r1: "dropWhile is_digit (digits k @ js ''.'' @ digits d) = 46 # [48 + d]"
    using all by (simp add: js_Cons js_Nil is_digit_def dd)
  have v: "digits_val (digits k @ [48 + d]) = 10 * k + d"
    by (simp add: digits_val_snoc digits_val_digits)
  show ?thesis
    unfolding decimal_literal_def Let_def ip r1 using dig
    by (simp add: v exponent_part_def pow10_def)
qed

lemma parseFloat_digits:
  assumes "d < 10"
  shows "parseFloat (digits k @ js ''.'' @ digits d) = fl (of_nat (10 * k + d) / 10)"
proof -
  obtain c cs where c: "digits k = c # cs" "is_digit c" using digits_Cons by blast
  let ?u = "digits k @ js ''.'' @ digits d"
  have ws: "dropWhile is_ws ?u = ?u" using c is_digit_not_ws [of c] by simp
  have sg: "opt_sign ?u = (False, ?u)"
    using c by (simp add: opt_sign_def is_digit_def)
  have inf: "take 8 ?u \<noteq> js ''Infinity''"
    using c by (auto simp add: js_Cons is_digit_def)
  show ?thesis
    unfolding parseFloat_def ws sg
    by (simp add: inf decimal_literal_digits [OF assms] del: take_append)
qed

lemma parseFloat_minus_digits:
  assumes "d < 10"
  shows "parseFloat (js ''-'' @ digits k @ js ''.'' @ digits d) = fl (- (of_nat (10 * k + d) / 10))"
proof -
  obtain c cs where c: "digits k = c # cs" "is_digit c" using digits_Cons by blast
  let ?u = "digits k @ js ''.'' @ digits d"
  have ws: "dropWhile is_ws (js ''-'' @ ?u) = js ''-'' @ ?u"
    by (simp add: js_Cons js_Nil is_ws_def)
  have sg: "opt_sign (js ''-'' @ ?u) = (True, ?u)"
    by (simp add: opt_sign_def js_Cons js_Nil)
  have inf: "take 8 ?u \<noteq> js ''Infinity''"
    using c by (auto simp add: js_Cons is_digit_def)
  show ?thesis
    unfolding parseFloat_def ws sg
    by (simp add: inf decimal_literal_digits [OF assms] del: take_append)
qed

lemma nat_div_mod_10: "10 * (n div 10) + n mod 10 = (n::nat)"
  by simp

lemma parseFloat_toFixed1: "parseFloat (toFixed1 x) = fl (spec_round1 x)"
proof -
  define n where "n = nat \<lfloor>10 * \<bar>x\<bar> + 1 / 2\<rfloor>"
  have n0: "0 \<le> \<lfloor>10 * \<bar>x\<bar> + 1 / 2\<rfloor>" by simp
  have n: "of_nat n = (of_int \<lfloor>10 * \<bar>x\<bar> + 1 / 2\<rfloor> :: rat)"
    using n0 by (simp add: n_def)
  have d: "n mod 10 < 10" by simp
  have e: "(of_nat (10 * (n div 10) + n mod 10) :: rat) = of_nat n"
    by (simp only: nat_div_mod_10)
  show ?thesis
  proof (cases "x < 0")
    case True
    then have "toFixed1 x = js ''-'' @ digits (n div 10) @ js ''.'' @ digits (n mod 10)"
      by (simp add: toFixed1_def Let_def n_def)
    then show ?thesis using True
      by (simp only: parseFloat_minus_digits [OF d] e n spec_round1_def) simp
  next
    case False
    then have "toFixed1 x = digits (n div 10) @ js ''.'' @ digits (n mod 10)"
      by (simp add: toFixed1_def Let_def n_def)
    then show ?thesis using False
      by (simp only: parseFloat_digits [OF d] e n spec_round1_def) simp
  qed
qed

lemma parse_toFixed1_Fin: "\<bar>x\<bar> < 10 ^ 21 \<Longrightarrow> parse_toFixed1 (Fin x) = fl (spec_round1 x)"
  by (simp add: parse_toFixed1_def parseFloat_toFixed1)


section \<open>Bounds on the computation for validated inputs\<close>

lemma heightInMeters_bounds:
  assumes "50 \<le> H" "H \<le> 250"
  shows "\<exists>m. js_div (Fin H) (Fin 100) = Fin m \<and> 1 / 2 \<le> m \<and> m \<le> 5 / 2"
proof -
  have "\<exists>m. fl (H / 100) = Fin m \<and> 1 / 2 \<le> m \<and> m \<le> 5 / 2"
    using assms
    by (intro fl_between [where ?M1.0 = 1 and ?K1.0 = "- 1" and ?M2.0 = 5 and ?K2.0 = "- 1"])
       (simp_all add: pow2_def)
  then show ?thesis by (simp add: js_div_def)
qed

lemma square_bounds:
  assumes "1 / 2 \<le> m" "m \<le> 5 / 2"
  shows "\<exists>q. js_mul (Fin m) (Fin m) = Fin q \<and> 1 / 4 \<le> q \<and> q \<le> 25 / 4"
proof -
  have m0: "0 \<le> m" using assms(1) by simp
  have lo: "1 / 4 \<le> m * m"
    using mult_mono [of "1 / 2" m "1 / 2" m] assms(1) by simp
  have hi: "m * m \<le> 25 / 4"
    using mult_mono [of m "5 / 2" m "5 / 2"] assms(2) m0 by simp
  have "\<exists>q. fl (m * m) = Fin q \<and> 1 / 4 \<le> q \<and> q \<le> 25 / 4"
    using lo hi
    by (intro fl_between [where ?M1.0 = 1 and ?K1.0 = "- 2" and ?M2.0 = 25 and ?K2.0 = "- 2"])
       (simp_all add: pow2_def)
  then show ?thesis by (simp add: js_mul_def)
qed

lemma quotient_bounds:
  assumes "20 \<le> W" "W \<le> 500" "1 / 4 \<le> q" "q \<le> 25 / 4"
  shows "\<exists>b. js_div (Fin W) (Fin q) = Fin b \<and> 3 \<le> b \<and> b \<le> 2000"
proof -
  have q0: "0 < q" using assms(3) by simp
  have "3 * q \<le> 3 * (25 / 4)" using assms(4) by simp
  also have "\<dots> \<le> W" using assms(1) by simp
  finally have lo: "3 \<le> W / q" using q0 by (simp add: pos_le_divide_eq)
  have "W \<le> 2000 * (1 / 4)" using assms(2) by simp
  also have "\<dots> \<le> 2000 * q" using assms(3) by simp
  finally have hi: "W / q \<le> 2000" using q0 by (simp add: pos_divide_le_eq)
  have "\<exists>b. fl (W / q) = Fin b \<and> 3 \<le> b \<and> b \<le> 2000"
    using lo hi
    by (intro fl_between [where ?M1.0 = 3 and ?K1.0 = 0 and ?M2.0 = 2000 and ?K2.0 = 0])
       (simp_all add: pow2_def)
  then show ?thesis using q0 by (simp add: js_div_def)
qed

lemma bmiValue_validated:
  assumes "validateField Height h = None" "validateField Weight w = None"
  shows "\<exists>b. bmiValue h w = Fin b \<and> 3 \<le> b \<and> b \<le> 2000"
proof -
  from assms(1) obtain H where H: "parseFloat h = Fin H" "50 \<le> H" "H \<le> 250"
    by (auto simp add: validateField_None_iff lower_bound_def upper_bound_def)
  from assms(2) obtain W where W: "parseFloat w = Fin W" "20 \<le> W" "W \<le> 500"
    by (auto simp add: validateField_None_iff lower_bound_def upper_bound_def)
  from heightInMeters_bounds [OF H(2,3)] obtain m
    where m: "js_div (Fin H) (Fin 100) = Fin m" "1 / 2 \<le> m" "m \<le> 5 / 2" by blast
  from square_bounds [OF m(2,3)] obtain q
    where q: "js_mul (Fin m) (Fin m) = Fin q" "1 / 4 \<le> q" "q \<le> 25 / 4" by blast
  from quotient_bounds [OF W(2,3) q(2,3)] obtain b
    where b: "js_div (Fin W) (Fin q) = Fin b" "3 \<le> b" "b \<le> 2000" by blast
  have "bmiValue h w = Fin b"
    by (simp add: bmiValue_def Let_def H(1) W(1) m(1) q(1) b(1))
  then show ?thesis using b by blast
qed

lemma fl_le0:
  assumes "0 \<le> x" "x \<le> R" "R = of_int M * pow2 K" "M < 2 ^ 53" "- 1074 \<le> K" "R < pow2 1024"
  shows "\<exists>y. fl x = Fin y \<and> 0 \<le> y \<and> y \<le> R"
proof (cases "x = 0")
  case True
  then show ?thesis using assms(1,2) by (simp add: fl_zero)
next
  case False
  then have "0 < x" using assms(1) by simp
  then show ?thesis using assms(2-6) by (rule fl_le)
qed

lemma clamp_cases:
  assumes "v \<noteq> NaN"
  shows "\<exists>c. Math_max (Fin 10) (Math_min v (Fin 40)) = Fin c \<and> 10 \<le> c \<and> c \<le> 40
             \<and> (js_le v (Fin 10) \<longrightarrow> c = 10) \<and> (js_le (Fin 40) v \<longrightarrow> c = 40)
             \<and> (js_le (Fin 10) v \<and> js_le v (Fin 40) \<longrightarrow> v = Fin c)"
  using assms
  by (cases v) (auto simp add: Math_max_def Math_min_def js_le_def js_lt_def)

lemma scale_of_clamped:
  assumes "10 \<le> c" "c \<le> 40"
  shows "\<exists>p. js_mul (js_div (js_sub (Fin c) (Fin 10)) (Fin 30)) (Fin 100) = Fin p
             \<and> 0 \<le> p \<and> p \<le> 100"
proof -
  have "\<exists>d. fl (c - 10) = Fin d \<and> 0 \<le> d \<and> d \<le> 30"
    using assms by (intro fl_le0 [where M = 30 and K = 0]) (simp_all add: pow2_def)
  then obtain d where d: "js_sub (Fin c) (Fin 10) = Fin d" "0 \<le> d" "d \<le> 30"
    by (auto simp add: js_sub_def)
  have "\<exists>q. fl (d / 30) = Fin q \<and> 0 \<le> q \<and> q \<le> 1"
    using d(2,3) by (intro fl_le0 [where M = 1 and K = 0]) (simp_all add: pow2_def)
  then obtain q where q: "js_div (Fin d) (Fin 30) = Fin q" "0 \<le> q" "q \<le> 1"
    by (auto simp add: js_div_def)
  have "\<exists>p. fl (q * 100) = Fin p \<and> 0 \<le> p \<and> p \<le> 100"
    using q(2,3) by (intro fl_le0 [where M = 100 and K = 0]) (simp_all add: pow2_def)
  then obtain p where p: "js_mul (Fin q) (Fin 100) = Fin p" "0 \<le> p" "p \<le> 100"
    by (auto simp add: js_mul_def)
  show ?thesis using p by (simp add: d(1) q(1))
qed

lemma scale_10: "js_mul (js_div (js_sub (Fin 10) (Fin 10)) (Fin 30)) (Fin 100) = Fin 0"
  by (simp add: js_sub_def js_div_def js_mul_def fl_zero)

lemma scale_40: "js_mul (js_div (js_sub (Fin 40) (Fin 10)) (Fin 30)) (Fin 100) = Fin 100"
  by (simp add: js_sub_def js_div_def js_mul_def fl_numeral fl_one)

lemma fl_half: "fl (1 / 2) = Fin (1 / 2)"
  by (rule fl_exact [where M = 1 and K = "- 1"]) (simp_all add: pow2_def)

lemma scale_25: "js_mul (js_div (js_sub (Fin 25) (Fin 10)) (Fin 30)) (Fin 100) = Fin 50"
  by (simp add: js_sub_def js_div_def js_mul_def fl_numeral fl_half)

lemma fl_half_quantum:
  assumes xpos: "0 < x" and y: "fl x = Fin y"
  shows "\<bar>y - x\<bar> \<le> quantum x / 2"
proof -
  define n where "n = round_even (x / quantum x)"
  have yr: "y = of_int n * quantum x"
    using y by (simp add: fl_pos [OF xpos] n_def Let_def split: if_splits)
  have qpos: "0 < quantum x" by (rule quantum_pos)
  have "\<bar>of_int n - x / quantum x\<bar> \<le> 1 / 2" unfolding n_def by (rule round_even_close)
  then have "\<bar>of_int n - x / quantum x\<bar> * quantum x \<le> 1 / 2 * quantum x"
    using qpos by (simp add: mult_right_mono)
  moreover have "\<bar>of_int n - x / quantum x\<bar> * quantum x = \<bar>y - x\<bar>"
  proof -
    have "\<bar>of_int n - x / quantum x\<bar> * quantum x = \<bar>(of_int n - x / quantum x) * quantum x\<bar>"
      using qpos by (simp add: abs_mult)
    also have "(of_int n - x / quantum x) * quantum x = y - x"
      using qpos by (simp add: yr left_diff_distrib)
    finally show ?thesis .
  qed
  ultimately show ?thesis by simp
qed

lemma fl_abs_error:
  assumes x: "0 \<le> x" "x \<le> pow2 k" and k: "- 1022 \<le> k" and y: "fl x = Fin y"
  shows "\<bar>y - x\<bar> \<le> pow2 (k - 53)"
proof (cases "x = 0")
  case True
  then have "y = 0" using y by (simp add: fl_zero)
  then show ?thesis using True pow2_pos [of "k - 53"] by simp
next
  case False
  then have xpos: "0 < x" using x(1) by simp
  from expo_bounds [OF xpos] have "pow2 (expo x) \<le> x" by simp
  then have "pow2 (expo x) < pow2 (k + 1)"
    using x(2) pow2_strict_mono [of k "k + 1"] by simp
  then have "expo x < k + 1" by (rule pow2_less_cancel)
  then have "max (expo x) (- 1022) - 52 \<le> k - 52" using k by simp
  then have "quantum x \<le> pow2 (k - 52)" unfolding quantum_def by (rule pow2_mono)
  also have "pow2 (k - 52) = 2 * pow2 (k - 53)"
    using pow2_add [of 1 "k - 53"] by (simp add: pow2_def)
  finally have "quantum x / 2 \<le> pow2 (k - 53)" by simp
  then show ?thesis using fl_half_quantum [OF xpos y] by simp
qed

lemma fl_rel_error:
  assumes x: "pow2 (- 1022) \<le> x" and y: "fl x = Fin y"
  shows "\<bar>y - x\<bar> \<le> x / 2 ^ 53"
proof -
  have xpos: "0 < x" using x pow2_pos [of "- 1022"] by simp
  from expo_bounds [OF xpos] have e: "pow2 (expo x) \<le> x" "x < pow2 (expo x + 1)" by auto
  have "pow2 (- 1022) < pow2 (expo x + 1)" using x e(2) by simp
  then have "- 1022 < expo x + 1" by (rule pow2_less_cancel)
  then have q: "quantum x = pow2 (expo x - 52)" by (simp add: quantum_def max_def)
  have p52: "pow2 52 = 2 ^ 52" by (simp add: pow2_def)
  have "quantum x = pow2 (expo x) / 2 ^ 52"
    by (simp only: q pow2_diff p52)
  also have "\<dots> \<le> x / 2 ^ 52" using e(1) by (simp add: divide_right_mono)
  finally have "quantum x / 2 \<le> x / 2 ^ 52 / 2" by simp
  also have "\<dots> = x / 2 ^ 53" by simp
  finally show ?thesis using fl_half_quantum [OF xpos y] by simp
qed

lemma rel_interval:
  fixes x y u :: rat
  assumes "\<bar>y - x\<bar> \<le> x * u"
  shows "x * (1 - u) \<le> y" and "y \<le> x * (1 + u)"
proof -
  have "- (x * u) \<le> y - x" "y - x \<le> x * u" using assms by linarith+
  then show "x * (1 - u) \<le> y" and "y \<le> x * (1 + u)"
    by (simp_all add: algebra_simps)
qed

lemma bmiValue_accuracy:
  assumes H: "50 \<le> H" "H \<le> 250" and W: "20 \<le> W" "W \<le> 500"
    and m: "js_div (Fin H) (Fin 100) = Fin m"
    and q: "js_mul (Fin m) (Fin m) = Fin q"
    and b: "js_div (Fin W) (Fin q) = Fin b"
  shows "\<bar>b - W / (H / 100)\<^sup>2\<bar> \<le> (W / (H / 100)\<^sup>2) / 2 ^ 50"
proof -
  define u :: rat where "u = 1 / 2 ^ 53"
  define A where "A = H / 100"
  have u: "0 < u" "u < 1" by (simp_all add: u_def)
  have c1: "(1 + u) / (1 - u) ^ 3 \<le> 1 + 8 * u"
    by (simp add: u_def power_divide)
  have c2: "1 - 8 * u \<le> (1 - u) / (1 + u) ^ 3"
    by (simp add: u_def power_divide)
  have A: "1 / 2 \<le> A" "A \<le> 5 / 2" using H by (simp_all add: A_def)
  have Apos: "0 < A" using A(1) by simp
  have small: "pow2 (- 1022) \<le> 1 / 100" by (simp add: pow2_def)
  \<comment> \<open>the height in meters\<close>
  have fm: "fl A = Fin m" using m by (simp add: js_div_def A_def)
  have "pow2 (- 1022) \<le> A" using small A(1) by simp
  from fl_rel_error [OF this fm] have "\<bar>m - A\<bar> \<le> A * u" by (simp add: u_def)
  from rel_interval [OF this] have m_lo: "A * (1 - u) \<le> m" and m_hi: "m \<le> A * (1 + u)" .
  have lo0: "0 < A * (1 - u)" using Apos u by simp
  have mpos: "0 < m" using lo0 m_lo by simp
  \<comment> \<open>its square\<close>
  have fq: "fl (m * m) = Fin q" using q by (simp add: js_mul_def)
  have mm_lo: "(A * (1 - u)) * (A * (1 - u)) \<le> m * m"
    using m_lo lo0 by (intro mult_mono) simp_all
  have mm_hi: "m * m \<le> (A * (1 + u)) * (A * (1 + u))"
    using m_hi mpos by (intro mult_mono) simp_all
  have "1 / 100 \<le> (A * (1 - u)) * (A * (1 - u))"
  proof -
    have "1 / 10 \<le> A * (1 - u)"
      using mult_mono [of "1 / 2" A "1 / 5" "1 - u"] A(1) by (simp add: u_def)
    then show ?thesis using mult_mono [of "1 / 10" "A * (1 - u)" "1 / 10" "A * (1 - u)"] by simp
  qed
  then have "pow2 (- 1022) \<le> m * m" using small mm_lo by simp
  from fl_rel_error [OF this fq] have "\<bar>q - m * m\<bar> \<le> m * m * u" by (simp add: u_def)
  from rel_interval [OF this] have q_lo: "m * m * (1 - u) \<le> q" and q_hi: "q \<le> m * m * (1 + u)" .
  have q_lo': "A\<^sup>2 * (1 - u) ^ 3 \<le> q"
  proof -
    have u1: "0 \<le> 1 - u" using u by simp
    have "(A * (1 - u)) * (A * (1 - u)) * (1 - u) \<le> m * m * (1 - u)"
      by (rule mult_right_mono [OF mm_lo u1])
    then show ?thesis using q_lo by (simp add: power2_eq_square power3_eq_cube algebra_simps)
  qed
  have q_hi': "q \<le> A\<^sup>2 * (1 + u) ^ 3"
  proof -
    have u1: "0 \<le> 1 + u" using u by simp
    have "m * m * (1 + u) \<le> (A * (1 + u)) * (A * (1 + u)) * (1 + u)"
      by (rule mult_right_mono [OF mm_hi u1])
    then show ?thesis using q_hi by (simp add: power2_eq_square power3_eq_cube algebra_simps)
  qed
  have L: "0 < A\<^sup>2 * (1 - u) ^ 3" using Apos u by simp
  have qpos: "0 < q" using L q_lo' by simp
  have U: "A\<^sup>2 * (1 + u) ^ 3 \<le> 100"
  proof -
    have "A\<^sup>2 \<le> (5 / 2)\<^sup>2" using A Apos by (intro power_mono) simp_all
    moreover have "(1 + u) ^ 3 \<le> 2 ^ 3" using u by (intro power_mono) simp_all
    moreover have "0 \<le> (1 + u) ^ 3" using u by simp
    ultimately have "A\<^sup>2 * (1 + u) ^ 3 \<le> (5 / 2)\<^sup>2 * 2 ^ 3"
      by (intro mult_mono) simp_all
    also have "\<dots> = 50" by (simp add: power2_eq_square)
    finally show ?thesis by simp
  qed
  \<comment> \<open>the quotient\<close>
  have Wpos: "0 < W" using W by simp
  have fb: "fl (W / q) = Fin b" using b qpos by (simp add: js_div_def)
  have wq: "1 / 100 \<le> W / q"
  proof -
    have "q \<le> 100" using q_hi' U by simp
    then have "q \<le> 100 * W" using W(1) by simp
    then show ?thesis using qpos by (simp add: pos_le_divide_eq)
  qed
  have "pow2 (- 1022) \<le> W / q" by (rule order_trans [OF small wq])
  from fl_rel_error [OF this fb] have "\<bar>b - W / q\<bar> \<le> W / q * u" by (simp add: u_def)
  from rel_interval [OF this] have b_lo: "W / q * (1 - u) \<le> b" and b_hi: "b \<le> W / q * (1 + u)" .
  define Q where "Q = W / A\<^sup>2"
  have Qpos: "0 < Q" using Wpos Apos by (simp add: Q_def)
  have hi: "b \<le> Q * (1 + 8 * u)"
  proof -
    have a: "W / q \<le> W / (A\<^sup>2 * (1 - u) ^ 3)"
      using q_lo' L Wpos by (intro divide_left_mono) (simp_all add: qpos)
    have u1: "0 \<le> 1 + u" using u by simp
    have "W / q * (1 + u) \<le> W / (A\<^sup>2 * (1 - u) ^ 3) * (1 + u)"
      by (rule mult_right_mono [OF a u1])
    also have "\<dots> = Q * ((1 + u) / (1 - u) ^ 3)" by (simp add: Q_def)
    also have "\<dots> \<le> Q * (1 + 8 * u)" by (rule mult_left_mono [OF c1 less_imp_le [OF Qpos]])
    finally show ?thesis using b_hi by simp
  qed
  have lo: "Q * (1 - 8 * u) \<le> b"
  proof -
    have P: "0 < A\<^sup>2 * (1 + u) ^ 3" using Apos u by simp
    have "Q * (1 - 8 * u) \<le> Q * ((1 - u) / (1 + u) ^ 3)"
      by (rule mult_left_mono [OF c2 less_imp_le [OF Qpos]])
    also have "\<dots> = W / (A\<^sup>2 * (1 + u) ^ 3) * (1 - u)" by (simp add: Q_def)
    also have "\<dots> \<le> W / q * (1 - u)"
    proof -
      have a: "W / (A\<^sup>2 * (1 + u) ^ 3) \<le> W / q"
        using q_hi' qpos Wpos by (intro divide_left_mono) (simp_all add: P)
      have u1: "0 \<le> 1 - u" using u by simp
      show ?thesis by (rule mult_right_mono [OF a u1])
    qed
    finally show ?thesis using b_lo by simp
  qed
  have "\<bar>b - Q\<bar> \<le> Q * (8 * u)"
    using lo hi by (simp add: abs_le_iff algebra_simps)
  then show ?thesis by (simp add: Q_def A_def u_def)
qed

lemma bmiValue_validated_accuracy:
  assumes "validateField Height h = None" "validateField Weight w = None"
  shows "\<exists>H W b. parseFloat h = Fin H \<and> parseFloat w = Fin W \<and> bmiValue h w = Fin b
            \<and> 3 \<le> b \<and> b \<le> 2000
            \<and> \<bar>b - W / (H / 100)\<^sup>2\<bar> \<le> (W / (H / 100)\<^sup>2) / 2 ^ 50"
proof -
  from assms(1) obtain H where H: "parseFloat h = Fin H" "50 \<le> H" "H \<le> 250"
    by (auto simp add: validateField_None_iff lower_bound_def upper_bound_def)
  from assms(2) obtain W where W: "parseFloat w = Fin W" "20 \<le> W" "W \<le> 500"
    by (auto simp add: validateField_None_iff lower_bound_def upper_bound_def)
  from heightInMeters_bounds [OF H(2,3)] obtain m
    where m: "js_div (Fin H) (Fin 100) = Fin m" "1 / 2 \<le> m" "m \<le> 5 / 2" by blast
  from square_bounds [OF m(2,3)] obtain q
    where q: "js_mul (Fin m) (Fin m) = Fin q" "1 / 4 \<le> q" "q \<le> 25 / 4" by blast
  from quotient_bounds [OF W(2,3) q(2,3)] obtain b
    where b: "js_div (Fin W) (Fin q) = Fin b" "3 \<le> b" "b \<le> 2000" by blast
  have v: "bmiValue h w = Fin b"
    by (simp add: bmiValue_def Let_def H(1) W(1) m(1) q(1) b(1))
  have "\<bar>b - W / (H / 100)\<^sup>2\<bar> \<le> (W / (H / 100)\<^sup>2) / 2 ^ 50"
    using H(2,3) W(2,3) m(1) q(1) b(1) by (rule bmiValue_accuracy)
  then show ?thesis using H(1) W(1) v b(2,3) by blast
qed

lemma stored_score_Fin:
  assumes "3 \<le> b" "b \<le> 2000"
  shows "\<exists>y. fl (spec_round1 b) = Fin y \<and> 3 \<le> y \<and> y \<le> 2000"
proof -
  define n where "n = \<lfloor>10 * b + 1 / 2\<rfloor>"
  have r: "spec_round1 b = of_int n / 10"
    using assms(1) by (simp add: spec_round1_def n_def)
  have "of_int 30 \<le> 10 * b + 1 / 2" using assms(1) by simp
  then have lo: "30 \<le> n" unfolding n_def by (simp only: le_floor_iff)
  have "10 * b + 1 / 2 < of_int 20000 + 1" using assms(2) by simp
  then have hi: "n \<le> 20000" unfolding n_def by (simp only: floor_le_iff)
  have "(of_int 30 :: rat) \<le> of_int n" "(of_int n :: rat) \<le> of_int 20000"
    using lo hi by (simp_all only: of_int_le_iff)
  then have "3 \<le> spec_round1 b" "spec_round1 b \<le> 2000" by (simp_all add: r)
  then show ?thesis
    by (intro fl_between [where ?M1.0 = 3 and ?K1.0 = 0 and ?M2.0 = 2000 and ?K2.0 = 0])
       (simp_all add: pow2_def)
qed

lemma bmi_calculateBMI_Fin:
  assumes "bmi s = None \<or> (\<exists>x. bmi s = Some (Fin x))"
  shows "bmi (calculateBMI s) = None \<or> (\<exists>x. bmi (calculateBMI s) = Some (Fin x))"
proof (cases "submit_ok s")
  case False
  then show ?thesis using assms by (simp add: bmi_calculateBMI)
next
  case True
  then have v: "validateField Height (height s) = None" "validateField Weight (weight s) = None"
    by (simp_all add: submit_ok_def)
  from bmiValue_validated [OF v] obtain b
    where b: "bmiValue (height s) (weight s) = Fin b" "3 \<le> b" "b \<le> 2000" by blast
  have "\<bar>b\<bar> < 10 ^ 21" using b(2,3) by simp
  then have p: "parse_toFixed1 (Fin b) = fl (spec_round1 b)" by (rule parse_toFixed1_Fin)
  from stored_score_Fin [OF b(2,3)] obtain y where "fl (spec_round1 b) = Fin y" by blast
  then show ?thesis using True by (simp add: bmi_calculateBMI b(1) p)
qed

lemma bmi_run_Fin: "bmi (run init es) = None \<or> (\<exists>x. bmi (run init es) = Some (Fin x))"
proof (induction es rule: rev_induct)
  case Nil
  then show ?case by (simp add: run_Nil init_def)
next
  case (snoc e es)
  show ?case
  proof (cases e)
    case (Change f v)
    then show ?thesis using snoc by (simp add: run_snoc step_def result_handleInputChange)
  next
    case Submit
    then show ?thesis using bmi_calculateBMI_Fin [OF snoc] by (simp add: run_snoc step_def)
  qed
qed

lemma scale_accuracy:
  assumes c: "10 \<le> c" "c \<le> 40"
    and p: "js_mul (js_div (js_sub (Fin c) (Fin 10)) (Fin 30)) (Fin 100) = Fin p"
  shows "\<bar>p - (c - 10) / 30 * 100\<bar> \<le> 1 / 2 ^ 44"
proof -
  have "\<exists>d. fl (c - 10) = Fin d \<and> 0 \<le> d \<and> d \<le> 30"
    using c by (intro fl_le0 [where M = 30 and K = 0]) (simp_all add: pow2_def)
  then obtain d where d: "fl (c - 10) = Fin d" "0 \<le> d" "d \<le> 30" by blast
  have "\<exists>q. fl (d / 30) = Fin q \<and> 0 \<le> q \<and> q \<le> 1"
    using d(2,3) by (intro fl_le0 [where M = 1 and K = 0]) (simp_all add: pow2_def)
  then obtain q where q: "fl (d / 30) = Fin q" "0 \<le> q" "q \<le> 1" by blast
  have fp: "fl (q * 100) = Fin p"
    using p by (simp add: js_sub_def js_div_def js_mul_def d(1) q(1))
  have e1: "\<bar>d - (c - 10)\<bar> \<le> pow2 (5 - 53)"
    using c d(1) by (intro fl_abs_error) (simp_all add: pow2_def)
  have e2: "\<bar>q - d / 30\<bar> \<le> pow2 (0 - 53)"
    using d(2,3) q(1) by (intro fl_abs_error) (simp_all add: pow2_def)
  have e3: "\<bar>p - q * 100\<bar> \<le> pow2 (7 - 53)"
    using q(2,3) fp by (intro fl_abs_error) (simp_all add: pow2_def)
  have e1': "\<bar>d - (c - 10)\<bar> \<le> 1 / 2 ^ 48" using e1 by (simp add: pow2_def)
  have e2': "\<bar>q - d / 30\<bar> \<le> 1 / 2 ^ 53" using e2 by (simp add: pow2_def)
  have e3': "\<bar>p - q * 100\<bar> \<le> 1 / 2 ^ 46" using e3 by (simp add: pow2_def)
  have tri: "\<bar>a + b + e\<bar> \<le> \<bar>a\<bar> + \<bar>b\<bar> + \<bar>e\<bar>" for a b e :: rat
    by arith
  have "p - (c - 10) / 30 * 100
      = (p - q * 100) + 100 * (q - d / 30) + 100 / 30 * (d - (c - 10))"
    by (simp add: field_simps)
  also have "\<bar>\<dots>\<bar> \<le> \<bar>p - q * 100\<bar> + \<bar>100 * (q - d / 30)\<bar> + \<bar>100 / 30 * (d - (c - 10))\<bar>"
    by (rule tri)
  also have "\<dots> = \<bar>p - q * 100\<bar> + 100 * \<bar>q - d / 30\<bar> + 100 / 30 * \<bar>d - (c - 10)\<bar>"
    by (simp only: abs_mult abs_divide abs_numeral)
  also have "\<dots> \<le> 1 / 2 ^ 46 + 100 * (1 / 2 ^ 53) + 100 / 30 * (1 / 2 ^ 48)"
    using e1' e2' e3' by (intro add_mono mult_left_mono) simp_all
  also have "\<dots> \<le> 1 / 2 ^ 44" by simp
  finally show ?thesis .
qed

lemma band_agree:
  fixes b Q t :: rat
  assumes acc: "\<bar>b - Q\<bar> \<le> Q / 2 ^ 50"
    and away: "Q * (1 + 1 / 2 ^ 50) < t \<or> t \<le> Q * (1 - 1 / 2 ^ 50)"
  shows "b < t \<longleftrightarrow> Q < t"
proof -
  have "0 \<le> \<bar>b - Q\<bar>" by simp
  then have "0 \<le> Q / 2 ^ 50" using acc by (rule order_trans)
  then have Q0: "0 \<le> Q" by simp
  have "\<bar>b - Q\<bar> \<le> Q * (1 / 2 ^ 50)" using acc by simp
  from rel_interval [OF this]
  have lo: "Q * (1 - 1 / 2 ^ 50) \<le> b" and hi: "b \<le> Q * (1 + 1 / 2 ^ 50)" .
  have up: "Q \<le> Q * (1 + 1 / 2 ^ 50)"
    using mult_left_mono [of 1 "1 + 1 / 2 ^ 50" Q] Q0 by simp
  have dn: "Q * (1 - 1 / 2 ^ 50) \<le> Q"
    using mult_left_mono [of "1 - 1 / 2 ^ 50" 1 Q] Q0 by simp
  from away show ?thesis
  proof
    assume "Q * (1 + 1 / 2 ^ 50) < t"
    then have "b < t" "Q < t" using hi up by simp_all
    then show ?thesis by simp
  next
    assume "t \<le> Q * (1 - 1 / 2 ^ 50)"
    then have "t \<le> b" "t \<le> Q" using lo dn by simp_all
    then show ?thesis by simp
  qed
qed

lemma categoryOf_agree:
  assumes "\<bar>b - Q\<bar> \<le> Q / 2 ^ 50"
    and "Q * (1 + 1 / 2 ^ 50) < 37 / 2 \<or> 37 / 2 \<le> Q * (1 - 1 / 2 ^ 50)"
    and "Q * (1 + 1 / 2 ^ 50) < 25 \<or> 25 \<le> Q * (1 - 1 / 2 ^ 50)"
    and "Q * (1 + 1 / 2 ^ 50) < 30 \<or> 30 \<le> Q * (1 - 1 / 2 ^ 50)"
  shows "categoryOf (Fin b) = categoryOf (Fin Q)"
  using band_agree [OF assms(1,2)] band_agree [OF assms(1,3)] band_agree [OF assms(1,4)]
  by (simp add: categoryOf_Fin)


section \<open>The submission state machine\<close>

text \<open>
  Claim C7. The form starts pristine (\<open>submitted\<close> is false). Every submission attempt
  sets \<open>submitted\<close>, whatever the validation says, and no event resets it: after a run
  of events from the initial state the form is submitted exactly when a submission is
  among them, and from a submitted state every step and every run stays submitted.
  While pristine, a field edit changes only that field's text, so it sets no error.
  While submitted, a field edit stores the text and replaces that field's error by the
  validator's verdict on the new text.
\<close>

theorem submission_state_machine:
  "\<not> submitted init
   \<and> submitted (calculateBMI s)
   \<and> (submitted (run init es) \<longleftrightarrow> Submit \<in> set es)
   \<and> (submitted t \<longrightarrow> submitted (step t e) \<and> submitted (run t es))
   \<and> (\<not> submitted s \<longrightarrow>
        handleInputChange f v s = (case f of Height \<Rightarrow> s\<lparr>height := v\<rparr> | Weight \<Rightarrow> s\<lparr>weight := v\<rparr>))
   \<and> (submitted t \<longrightarrow>
        handleInputChange f v t =
          (case f of
             Height \<Rightarrow> t\<lparr>height := v, errors := (errors t)\<lparr>err_height := validateField Height v\<rparr>\<rparr>
           | Weight \<Rightarrow> t\<lparr>weight := v, errors := (errors t)\<lparr>err_weight := validateField Weight v\<rparr>\<rparr>))"
proof -
  have "\<not> submitted init" by (simp add: init_def)
  moreover have "submitted (calculateBMI s)" by (rule submitted_calculateBMI)
  moreover have "submitted (run init es) \<longleftrightarrow> Submit \<in> set es" by (rule submitted_run_init)
  moreover have "submitted t \<longrightarrow> submitted (step t e) \<and> submitted (run t es)"
    by (simp add: submitted_step submitted_run)
  moreover note handleInputChange_pristine [of s f v] handleInputChange_submitted [of t f v]
  ultimately show ?thesis by blast
qed

text \<open>
  The property at the initial state and at the state after a first, failing, submission
  of the empty form.
\<close>

theorem submission_state_machine_witness:
  "\<not> submitted init
   \<and> handleInputChange Weight [] init = init\<lparr>weight := []\<rparr>
   \<and> submitted (calculateBMI init)
   \<and> submitted (step (calculateBMI init) (Change Weight []))
   \<and> submitted (run init [Submit])
   \<and> handleInputChange Weight [] (calculateBMI init) =
       (calculateBMI init)\<lparr>weight := [],
          errors := (errors (calculateBMI init))\<lparr>err_weight := Some ''Weight is required''\<rparr>\<rparr>"
  using submission_state_machine [of init "[Submit]" "calculateBMI init" "Change Weight []" Weight "[]"]
  by (simp add: validateField_empty required_message_def)


section \<open>The general error on submission\<close>

text \<open>
  Claim C10. What the general error is after a submission attempt does not depend on
  what it was before: it is set only when both fields validate and the computed score
  is not finite, and it is absent otherwise. In particular a submission that fails
  validation leaves no general error, and keeps the stored score and category.
\<close>

theorem general_error_cleared_on_submit:
  "err_general (errors (calculateBMI s)) =
     (if validateField Height (height s) = None \<and> validateField Weight (weight s) = None
         \<and> \<not> isFinite (bmiValue (height s) (weight s))
      then Some general_message else None)
   \<and> (validateField Height (height s) \<noteq> None \<or> validateField Weight (weight s) \<noteq> None \<longrightarrow>
        err_general (errors (calculateBMI s)) = None
        \<and> bmi (calculateBMI s) = bmi s \<and> category (calculateBMI s) = category s)"
proof (cases "validateField Height (height s) = None \<and> validateField Weight (weight s) = None")
  case False
  then have "validateField Height (height s) \<noteq> None \<or> validateField Weight (weight s) \<noteq> None"
    by (simp only: de_Morgan_conj)
  then have "calculateBMI s = s\<lparr>submitted := True,
           errors := \<lparr>err_height = validateField Height (height s),
                      err_weight = validateField Weight (weight s), err_general = None\<rparr>\<rparr>"
    by (rule calculateBMI_failed)
  then show ?thesis using False by auto
next
  case True
  then show ?thesis
    by (cases "isFinite (bmiValue (height s) (weight s))")
       (simp_all add: calculateBMI_ok calculateBMI_thrown)
qed

text \<open>
  A submitted form that shows a general error and an earlier result, resubmitted with
  empty fields: the general error is gone, the result is still there.
\<close>

theorem general_error_cleared_on_submit_witness:
  "validateField Weight (weight \<lparr>height = [], weight = [], bmi = Some (Fin 20),
       category = ''Normal weight'',
       errors = \<lparr>err_height = None, err_weight = None, err_general = Some general_message\<rparr>,
       submitted = True\<rparr>) \<noteq> None
   \<and> err_general (errors (calculateBMI \<lparr>height = [], weight = [], bmi = Some (Fin 20),
       category = ''Normal weight'',
       errors = \<lparr>err_height = None, err_weight = None, err_general = Some general_message\<rparr>,
       submitted = True\<rparr>)) = None
   \<and> bmi (calculateBMI \<lparr>height = [], weight = [], bmi = Some (Fin 20),
       category = ''Normal weight'',
       errors = \<lparr>err_height = None, err_weight = None, err_general = Some general_message\<rparr>,
       submitted = True\<rparr>) = Some (Fin 20)
   \<and> category (calculateBMI \<lparr>height = [], weight = [], bmi = Some (Fin 20),
       category = ''Normal weight'',
       errors = \<lparr>err_height = None, err_weight = None, err_general = Some general_message\<rparr>,
       submitted = True\<rparr>) = ''Normal weight''"
  using general_error_cleared_on_submit [of "\<lparr>height = [], weight = [], bmi = Some (Fin 20),
       category = ''Normal weight'',
       errors = \<lparr>err_height = None, err_weight = None, err_general = Some general_message\<rparr>,
       submitted = True\<rparr>"]
  by (simp add: validateField_empty)


section \<open>The stored result\<close>

text \<open>
  Claim C6. A submission on which a field fails validation changes nothing but the
  submitted flag and the errors: the two field errors are the validator's verdicts, one
  of them at least is present, and the stored score and category are as before. From
  the initial state a score is stored exactly when some submission among the events
  succeeded (both fields validated and the computation did not throw), and once a
  score is stored no later event removes it.
\<close>

theorem stale_result_retained:
  "(validateField Height (height s) \<noteq> None \<or> validateField Weight (weight s) \<noteq> None \<longrightarrow>
      calculateBMI s = s\<lparr>submitted := True,
         errors := \<lparr>err_height = validateField Height (height s),
                    err_weight = validateField Weight (weight s), err_general = None\<rparr>\<rparr>
      \<and> bmi (calculateBMI s) = bmi s \<and> category (calculateBMI s) = category s
      \<and> (err_height (errors (calculateBMI s)) \<noteq> None \<or> err_weight (errors (calculateBMI s)) \<noteq> None))
   \<and> (bmi (run init es) \<noteq> None \<longleftrightarrow> succeeded init es)
   \<and> (bmi s \<noteq> None \<longrightarrow> bmi (run s es) \<noteq> None)"
proof -
  have "validateField Height (height s) \<noteq> None \<or> validateField Weight (weight s) \<noteq> None \<longrightarrow>
      calculateBMI s = s\<lparr>submitted := True,
         errors := \<lparr>err_height = validateField Height (height s),
                    err_weight = validateField Weight (weight s), err_general = None\<rparr>\<rparr>
      \<and> bmi (calculateBMI s) = bmi s \<and> category (calculateBMI s) = category s
      \<and> (err_height (errors (calculateBMI s)) \<noteq> None \<or> err_weight (errors (calculateBMI s)) \<noteq> None)"
  proof
    assume a: "validateField Height (height s) \<noteq> None \<or> validateField Weight (weight s) \<noteq> None"
    show "calculateBMI s = s\<lparr>submitted := True,
         errors := \<lparr>err_height = validateField Height (height s),
                    err_weight = validateField Weight (weight s), err_general = None\<rparr>\<rparr>
      \<and> bmi (calculateBMI s) = bmi s \<and> category (calculateBMI s) = category s
      \<and> (err_height (errors (calculateBMI s)) \<noteq> None \<or> err_weight (errors (calculateBMI s)) \<noteq> None)"
      unfolding calculateBMI_failed [OF a] using a by simp
  qed
  moreover have "bmi (run init es) \<noteq> None \<longleftrightarrow> succeeded init es"
    using bmi_run [of init es] by (simp add: init_def)
  moreover have "bmi s \<noteq> None \<longrightarrow> bmi (run s es) \<noteq> None"
    using bmi_run [of s es] by auto
  ultimately show ?thesis by blast
qed

text \<open>
  The scenario of heights and weights \<open>170\<close>, \<open>70\<close> submitted, then the weight edited to
  \<open>-5\<close> and submitted again: the stored score (the binary64 number nearest to 24.2)
  and the category stay, and the weight carries its error.
\<close>

theorem stale_result_retained_witness:
  "bmi (run init [Change Height (js ''170''), Change Weight (js ''70''), Submit])
     = Some (Fin (6811694436397875 / 281474976710656))
   \<and> category (run init [Change Height (js ''170''), Change Weight (js ''70''), Submit])
     = ''Normal weight''
   \<and> succeeded init [Change Height (js ''170''), Change Weight (js ''70''), Submit]
   \<and> validateField Weight (weight (step (run init [Change Height (js ''170''),
        Change Weight (js ''70''), Submit]) (Change Weight (js ''-5'')))) \<noteq> None
   \<and> bmi (run init [Change Height (js ''170''), Change Weight (js ''70''), Submit,
        Change Weight (js ''-5''), Submit]) = Some (Fin (6811694436397875 / 281474976710656))
   \<and> category (run init [Change Height (js ''170''), Change Weight (js ''70''), Submit,
        Change Weight (js ''-5''), Submit]) = ''Normal weight''
   \<and> err_weight (errors (run init [Change Height (js ''170''), Change Weight (js ''70''), Submit,
        Change Weight (js ''-5''), Submit])) = Some ''Please enter a valid weight''"
proof -
  let ?es = "[Change Height (js ''170''), Change Weight (js ''70''), Submit]"
  let ?s = "step (run init ?es) (Change Weight (js ''-5''))"
  have s: "?s = \<lparr>height = js ''170'', weight = js ''-5'',
      bmi = Some (Fin (6811694436397875 / 281474976710656)), category = ''Normal weight'',
      errors = \<lparr>err_height = None, err_weight = Some ''Please enter a valid weight'',
                 err_general = None\<rparr>, submitted = True\<rparr>"
    by (simp add: run_170_70 step_def handleInputChange_submitted validateField_minus5)
  have r: "run init [Change Height (js ''170''), Change Weight (js ''70''), Submit,
        Change Weight (js ''-5''), Submit] = calculateBMI ?s"
    by (simp add: run_def step_def)
  have c1: "bmi (run init ?es) = Some (Fin (6811694436397875 / 281474976710656))"
    and c2: "category (run init ?es) = ''Normal weight''"
    by (simp_all add: run_170_70)
  have w: "validateField Weight (weight ?s) \<noteq> None"
    unfolding s by (simp add: validateField_minus5)
  from stale_result_retained [of ?s ?es] w
  have keep: "bmi (calculateBMI ?s) = bmi ?s" "category (calculateBMI ?s) = category ?s"
    and err: "calculateBMI ?s = ?s\<lparr>submitted := True,
         errors := \<lparr>err_height = validateField Height (height ?s),
                    err_weight = validateField Weight (weight ?s), err_general = None\<rparr>\<rparr>"
    and iff: "bmi (run init ?es) \<noteq> None \<longleftrightarrow> succeeded init ?es"
    by blast+
  have c3: "succeeded init ?es" using iff c1 by simp
  have c5: "bmi (calculateBMI ?s) = Some (Fin (6811694436397875 / 281474976710656))"
    using keep(1) by (simp add: s)
  have c6: "category (calculateBMI ?s) = ''Normal weight''"
    using keep(2) by (simp add: s)
  have "err_weight (errors (calculateBMI ?s)) = validateField Weight (weight ?s)"
    by (subst err) simp
  then have c7: "err_weight (errors (calculateBMI ?s)) = Some ''Please enter a valid weight''"
    by (simp add: s validateField_minus5)
  show ?thesis unfolding r using c1 c2 c3 w c5 c6 c7 by blast
qed


section \<open>The category names\<close>

text \<open>
  Claim C3, as the claim states it, fails: the component names the band from 18.5 up to
  25 \<open>Normal weight\<close>, not \<open>Normal\<close>. After height \<open>200\<close> and weight \<open>80\<close> are
  submitted a result exists and its category is none of \<open>Underweight\<close>, \<open>Normal\<close>,
  \<open>Overweight\<close>, \<open>Obese\<close>.
\<close>

theorem category_names_counterexample:
  "bmi (run init [Change Height (js ''200''), Change Weight (js ''80''), Submit]) \<noteq> None
   \<and> category (run init [Change Height (js ''200''), Change Weight (js ''80''), Submit])
       \<notin> {''Underweight'', ''Normal'', ''Overweight'', ''Obese''}"
  by (simp add: run_200_80)

text \<open>
  Claim C3, amended. Whenever a score is stored after a run of events from the initial
  state, the category is one of \<open>Underweight\<close>, \<open>Normal weight\<close>, \<open>Overweight\<close>,
  \<open>Obese\<close>. The four bands partition the scores: a finite score is \<open>Underweight\<close>
  exactly below 18.5, \<open>Normal weight\<close> exactly from 18.5 up to 25, \<open>Overweight\<close>
  exactly from 25 up to 30 and \<open>Obese\<close> exactly from 30 on.
\<close>

theorem category_names:
  "(bmi (run init es) \<noteq> None \<longrightarrow>
      category (run init es) \<in> {''Underweight'', ''Normal weight'', ''Overweight'', ''Obese''})
   \<and> (categoryOf (Fin r) = ''Underweight'' \<longleftrightarrow> r < 37 / 2)
   \<and> (categoryOf (Fin r) = ''Normal weight'' \<longleftrightarrow> 37 / 2 \<le> r \<and> r < 25)
   \<and> (categoryOf (Fin r) = ''Overweight'' \<longleftrightarrow> 25 \<le> r \<and> r < 30)
   \<and> (categoryOf (Fin r) = ''Obese'' \<longleftrightarrow> 30 \<le> r)"
proof -
  have "bmi (run init es) \<noteq> None \<longrightarrow>
      category (run init es) \<in> {''Underweight'', ''Normal weight'', ''Overweight'', ''Obese''}"
    using category_run [of es] by auto
  moreover have "categoryOf (Fin r) = ''Underweight'' \<longleftrightarrow> r < 37 / 2"
    by (simp add: categoryOf_Fin)
  moreover have "categoryOf (Fin r) = ''Normal weight'' \<longleftrightarrow> 37 / 2 \<le> r \<and> r < 25"
    by (auto simp add: categoryOf_Fin)
  moreover have "categoryOf (Fin r) = ''Overweight'' \<longleftrightarrow> 25 \<le> r \<and> r < 30"
    by (auto simp add: categoryOf_Fin)
  moreover have "categoryOf (Fin r) = ''Obese'' \<longleftrightarrow> 30 \<le> r"
    by (auto simp add: categoryOf_Fin)
  ultimately show ?thesis by blast
qed

text \<open>The amended property after heights and weights \<open>170\<close> and \<open>70\<close> are submitted.\<close>

theorem category_names_witness:
  "bmi (run init [Change Height (js ''170''), Change Weight (js ''70''), Submit]) \<noteq> None
   \<and> category (run init [Change Height (js ''170''), Change Weight (js ''70''), Submit])
       \<in> {''Underweight'', ''Normal weight'', ''Overweight'', ''Obese''}
   \<and> categoryOf (Fin 20) = ''Normal weight''"
  using category_names [of "[Change Height (js ''170''), Change Weight (js ''70''), Submit]" 20]
  by (simp add: run_170_70)


section \<open>Validation of a field\<close>

text \<open>
  Claim C4, as the claim states it, fails: the text \<open>Infinity\<close> is not parseable as a
  finite number, yet \<open>validateField\<close> answers it with the high-bound message, because
  the validator rejects NaN and values that are not positive and leaves an infinite
  value to the range checks.
\<close>

theorem rejected_text_counterexample:
  "\<not> isFinite (parseFloat (js ''Infinity''))
   \<and> validateField Height (js ''Infinity'') = Some ''Height seems too high (max 250cm)''
   \<and> validateField Height (js ''Infinity'')
       \<notin> {Some ''Height is required'', Some ''Please enter a valid height''}"
  by (simp add: parseFloat_Infinity validateField_PInf isFinite_def high_message_def)

text \<open>
  Claim C4, amended. For either field: a text that is empty or all white space gets
  the field's \<open>is required\<close> message; any other text for which \<open>parseFloat\<close> yields NaN
  or a value not above zero (negative infinity included) gets the field's
  \<open>Please enter a valid\<close> message; neither message is a bound message. A text whose
  parsed value is positive infinity gets the field's high-bound message.
\<close>

theorem rejected_text_messages:
  "(trim u = [] \<longrightarrow> validateField f u = Some (required_message f))
   \<and> (trim v \<noteq> [] \<and> (isNaN (parseFloat v) \<or> js_le (parseFloat v) (Fin 0)) \<longrightarrow>
        validateField f v = Some (valid_message f))
   \<and> (parseFloat w = PInf \<longrightarrow> validateField f w = Some (high_message f))
   \<and> \<not> is_bound_message (required_message f) \<and> \<not> is_bound_message (valid_message f)
   \<and> required_message Height = ''Height is required''
   \<and> required_message Weight = ''Weight is required''
   \<and> valid_message Height = ''Please enter a valid height''
   \<and> valid_message Weight = ''Please enter a valid weight''"
proof -
  have "trim u = [] \<longrightarrow> validateField f u = Some (required_message f)"
    by (simp add: validateField_cases)
  moreover have "trim v \<noteq> [] \<and> (isNaN (parseFloat v) \<or> js_le (parseFloat v) (Fin 0)) \<longrightarrow>
        validateField f v = Some (valid_message f)"
    by (cases "parseFloat v") (auto simp add: validateField_cases isNaN_def js_le_def js_lt_def)
  moreover have "parseFloat w = PInf \<longrightarrow> validateField f w = Some (high_message f)"
    by (simp add: validateField_PInf)
  moreover have "\<not> is_bound_message (required_message f)" "\<not> is_bound_message (valid_message f)"
    by (cases f; simp add: is_bound_message_def required_message_def valid_message_def
          low_message_def high_message_def)+
  moreover have "required_message Height = ''Height is required''"
    "required_message Weight = ''Weight is required''"
    "valid_message Height = ''Please enter a valid height''"
    "valid_message Weight = ''Please enter a valid weight''"
    by (simp_all add: required_message_def valid_message_def)
  ultimately show ?thesis by blast
qed

text \<open>
  A single space, the texts \<open>abc\<close> and \<open>-5\<close>, and the text \<open>Infinity\<close>.
\<close>

theorem rejected_text_messages_witness:
  "trim (js '' '') = [] \<and> validateField Height (js '' '') = Some ''Height is required''
   \<and> trim (js ''abc'') \<noteq> [] \<and> isNaN (parseFloat (js ''abc''))
   \<and> validateField Height (js ''abc'') = Some ''Please enter a valid height''
   \<and> trim (js ''-5'') \<noteq> [] \<and> js_le (parseFloat (js ''-5'')) (Fin 0)
   \<and> validateField Weight (js ''-5'') = Some ''Please enter a valid weight''
   \<and> parseFloat (js ''Infinity'') = PInf
   \<and> validateField Weight (js ''Infinity'') = Some (high_message Weight)"
proof -
  have t: "trim (js ''abc'') \<noteq> []" "trim (js ''-5'') \<noteq> []"
    by (simp_all add: trim_def js_Cons js_Nil is_ws_def)
  have n: "isNaN (parseFloat (js ''abc''))" "js_le (parseFloat (js ''-5'')) (Fin 0)"
    by (simp_all add: parseFloat_abc parseFloat_minus5 isNaN_def js_le_def js_lt_def)
  show ?thesis
    using rejected_text_messages [of "js '' ''" Height "js ''abc''" "js ''Infinity''"]
      rejected_text_messages [of "js '' ''" Weight "js ''-5''" "js ''Infinity''"]
      t n trim_space parseFloat_Infinity
    by simp
qed

text \<open>
  Claim C5, as the claim states it, fails: the height \<open>0\<close> is below 50, and the
  validator answers it with \<open>Please enter a valid height\<close>, not with the low-bound
  message.
\<close>

theorem range_validation_counterexample:
  "parseFloat (js ''0'') = Fin 0 \<and> (0::rat) < 50
   \<and> validateField Height (js ''0'') = Some ''Please enter a valid height''
   \<and> validateField Height (js ''0'') \<noteq> Some ''Height seems too low (min 50cm)''"
  by (simp add: parseFloat_0 validateField_Fin valid_message_def)

text \<open>
  Claim C5, amended. For a text that \<open>parseFloat\<close> reads as a number: the height has
  no error exactly when the value lies in the inclusive range from 50 to 250, and the
  weight exactly when it lies in the inclusive range from 20 to 500; a value above
  zero and below the range gets the field's low-bound message, a value above the range
  gets its high-bound message, and a value not above zero gets the field's
  \<open>Please enter a valid\<close> message.
\<close>

theorem range_validation:
  "parseFloat v \<noteq> NaN \<longrightarrow>
     (validateField Height v = None \<longleftrightarrow>
        js_le (Fin 50) (parseFloat v) \<and> js_le (parseFloat v) (Fin 250))
   \<and> (validateField Weight v = None \<longleftrightarrow>
        js_le (Fin 20) (parseFloat v) \<and> js_le (parseFloat v) (Fin 500))
   \<and> (js_gt (parseFloat v) (Fin 0) \<and> js_lt (parseFloat v) (Fin 50) \<longrightarrow>
        validateField Height v = Some ''Height seems too low (min 50cm)'')
   \<and> (js_gt (parseFloat v) (Fin 250) \<longrightarrow>
        validateField Height v = Some ''Height seems too high (max 250cm)'')
   \<and> (js_gt (parseFloat v) (Fin 0) \<and> js_lt (parseFloat v) (Fin 20) \<longrightarrow>
        validateField Weight v = Some ''Weight seems too low (min 20kg)'')
   \<and> (js_gt (parseFloat v) (Fin 500) \<longrightarrow>
        validateField Weight v = Some ''Weight seems too high (max 500kg)'')
   \<and> (js_le (parseFloat v) (Fin 0) \<longrightarrow>
        validateField Height v = Some ''Please enter a valid height''
        \<and> validateField Weight v = Some ''Please enter a valid weight'')"
proof
  assume nn: "parseFloat v \<noteq> NaN"
  then have t: "trim v \<noteq> []" using parseFloat_blank [of v] by blast
  show "(validateField Height v = None \<longleftrightarrow>
        js_le (Fin 50) (parseFloat v) \<and> js_le (parseFloat v) (Fin 250))
   \<and> (validateField Weight v = None \<longleftrightarrow>
        js_le (Fin 20) (parseFloat v) \<and> js_le (parseFloat v) (Fin 500))
   \<and> (js_gt (parseFloat v) (Fin 0) \<and> js_lt (parseFloat v) (Fin 50) \<longrightarrow>
        validateField Height v = Some ''Height seems too low (min 50cm)'')
   \<and> (js_gt (parseFloat v) (Fin 250) \<longrightarrow>
        validateField Height v = Some ''Height seems too high (max 250cm)'')
   \<and> (js_gt (parseFloat v) (Fin 0) \<and> js_lt (parseFloat v) (Fin 20) \<longrightarrow>
        validateField Weight v = Some ''Weight seems too low (min 20kg)'')
   \<and> (js_gt (parseFloat v) (Fin 500) \<longrightarrow>
        validateField Weight v = Some ''Weight seems too high (max 500kg)'')
   \<and> (js_le (parseFloat v) (Fin 0) \<longrightarrow>
        validateField Height v = Some ''Please enter a valid height''
        \<and> validateField Weight v = Some ''Please enter a valid weight'')"
    using nn t
    by (cases "parseFloat v")
       (auto simp add: validateField_cases js_le_def js_lt_def js_gt_def lower_bound_def
          upper_bound_def low_message_def high_message_def valid_message_def)
qed

text \<open>The ends of both ranges, values just outside them, and a negative value.\<close>

theorem range_validation_witness:
  "parseFloat (js ''50'') \<noteq> NaN \<and> validateField Height (js ''50'') = None
   \<and> parseFloat (js ''250'') \<noteq> NaN \<and> validateField Height (js ''250'') = None
   \<and> validateField Weight (js ''20'') = None \<and> validateField Weight (js ''500'') = None
   \<and> validateField Height (js ''49.9'') = Some ''Height seems too low (min 50cm)''
   \<and> validateField Height (js ''250.1'') = Some ''Height seems too high (max 250cm)''
   \<and> validateField Weight (js ''19.9'') = Some ''Weight seems too low (min 20kg)''
   \<and> validateField Weight (js ''500.1'') = Some ''Weight seems too high (max 500kg)''
   \<and> validateField Weight (js ''-5'') = Some ''Please enter a valid weight''"
  using range_validation [of "js ''50''"] range_validation [of "js ''250''"]
    range_validation [of "js ''20''"] range_validation [of "js ''500''"]
    range_validation [of "js ''49.9''"] range_validation [of "js ''250.1''"]
    range_validation [of "js ''19.9''"] range_validation [of "js ''500.1''"]
    range_validation [of "js ''-5''"]
  by (simp add: parseFloat_50 parseFloat_250 parseFloat_20 parseFloat_500 parseFloat_49p9
        parseFloat_250p1 parseFloat_19p9 parseFloat_500p1 parseFloat_minus5
        js_le_def js_lt_def js_gt_def)


section \<open>The computation error\<close>

text \<open>
  Claim C8. The \<open>try\<close> block throws exactly when the computed score is not finite.
  When both input texts pass validation the computed score is finite and not NaN, so
  the block does not throw, and a submission of validated inputs leaves no general
  error.
\<close>

theorem computation_error_unreachable:
  "(isl (compute h w) \<longleftrightarrow> \<not> isFinite (bmiValue h w))
   \<and> (validateField Height h = None \<and> validateField Weight w = None \<longrightarrow>
        isFinite (bmiValue h w) \<and> \<not> isNaN (bmiValue h w) \<and> \<not> isl (compute h w))
   \<and> (validateField Height (height s) = None \<and> validateField Weight (weight s) = None \<longrightarrow>
        err_general (errors (calculateBMI s)) = None)"
proof -
  have fin: "isFinite (bmiValue h' w') \<and> \<not> isNaN (bmiValue h' w')"
    if "validateField Height h' = None" "validateField Weight w' = None" for h' w'
    using bmiValue_validated [OF that] by (auto simp add: isFinite_def isNaN_def)
  have "isl (compute h w) \<longleftrightarrow> \<not> isFinite (bmiValue h w)" by (rule isl_compute)
  moreover have "validateField Height h = None \<and> validateField Weight w = None \<longrightarrow>
        isFinite (bmiValue h w) \<and> \<not> isNaN (bmiValue h w) \<and> \<not> isl (compute h w)"
    using fin [of h w] by (simp add: isl_compute)
  moreover have "validateField Height (height s) = None \<and> validateField Weight (weight s) = None \<longrightarrow>
        err_general (errors (calculateBMI s)) = None"
    using fin [of "height s" "weight s"] by (auto simp add: calculateBMI_ok)
  ultimately show ?thesis by blast
qed

text \<open>
  Heights and weights \<open>170\<close> and \<open>70\<close> validate and give a finite score; the height
  \<open>0\<close>, which validation rejects, would give an infinite score and the error.
\<close>

theorem computation_error_unreachable_witness:
  "validateField Height (js ''170'') = None \<and> validateField Weight (js ''70'') = None
   \<and> isFinite (bmiValue (js ''170'') (js ''70'')) \<and> \<not> isl (compute (js ''170'') (js ''70''))
   \<and> err_general (errors (calculateBMI (init\<lparr>height := js ''170'', weight := js ''70''\<rparr>))) = None
   \<and> validateField Height (js ''0'') \<noteq> None
   \<and> \<not> isFinite (bmiValue (js ''0'') (js ''70'')) \<and> compute (js ''0'') (js ''70'') = Inl Invalid_value"
proof -
  have v: "validateField Height (js ''170'') = None" "validateField Weight (js ''70'') = None"
    by (simp_all add: validateField_Fin parseFloat_170 parseFloat_70 lower_bound_def upper_bound_def)
  have z: "validateField Height (js ''0'') \<noteq> None"
    by (simp add: validateField_Fin parseFloat_0)
  have c: "compute (js ''0'') (js ''70'') = Inl Invalid_value"
    by (simp add: compute_Inl bmiValue_0_70 isFinite_def)
  show ?thesis
    using computation_error_unreachable [of "js ''170''" "js ''70''"
        "init\<lparr>height := js ''170'', weight := js ''70''\<rparr>"] v z c
    by (simp add: bmiValue_0_70 isFinite_def)
qed


section \<open>The position on the scale\<close>

text \<open>
  Claim C9. Without a score the position is 0. For every score that is a number, the
  position is a finite value between 0 and 100; it is 0 for every score up to 10 and
  100 for every score from 40 on, and between 10 and 40 it is the binary64 value of
  \<open>((score - 10) / 30) * 100\<close>, which is within \<open>2^-44\<close> of the linear map that takes 10
  to 0 and 40 to 100. Whatever the form holds after a run of events from the initial
  state is placed between 0 and 100. The scores 10, 40, 5 and 25 are placed at 0, 100,
  0 and 50.
\<close>

theorem scale_position:
  "getBmiScalePosition None = Fin 0
   \<and> (v \<noteq> NaN \<longrightarrow>
        (\<exists>p. getBmiScalePosition (Some v) = Fin p \<and> 0 \<le> p \<and> p \<le> 100)
        \<and> (js_le v (Fin 10) \<longrightarrow> getBmiScalePosition (Some v) = Fin 0)
        \<and> (js_le (Fin 40) v \<longrightarrow> getBmiScalePosition (Some v) = Fin 100)
        \<and> (js_le (Fin 10) v \<and> js_le v (Fin 40) \<longrightarrow>
             getBmiScalePosition (Some v) = js_mul (js_div (js_sub v (Fin 10)) (Fin 30)) (Fin 100)))
   \<and> (10 \<le> x \<and> x \<le> 40 \<longrightarrow>
        (\<exists>p. getBmiScalePosition (Some (Fin x)) = Fin p
             \<and> \<bar>p - (x - 10) / 30 * 100\<bar> \<le> 1 / 2 ^ 44))
   \<and> (\<exists>p. getBmiScalePosition (bmi (run init es)) = Fin p \<and> 0 \<le> p \<and> p \<le> 100)
   \<and> getBmiScalePosition (Some (Fin 10)) = Fin 0
   \<and> getBmiScalePosition (Some (Fin 40)) = Fin 100
   \<and> getBmiScalePosition (Some (Fin 5)) = Fin 0
   \<and> getBmiScalePosition (Some (Fin 25)) = Fin 50"
proof -
  have gen: "(\<exists>p. getBmiScalePosition (Some u) = Fin p \<and> 0 \<le> p \<and> p \<le> 100)
        \<and> (js_le u (Fin 10) \<longrightarrow> getBmiScalePosition (Some u) = Fin 0)
        \<and> (js_le (Fin 40) u \<longrightarrow> getBmiScalePosition (Some u) = Fin 100)
        \<and> (js_le (Fin 10) u \<and> js_le u (Fin 40) \<longrightarrow>
             getBmiScalePosition (Some u) = js_mul (js_div (js_sub u (Fin 10)) (Fin 30)) (Fin 100))"
    if "u \<noteq> NaN" for u
  proof -
    from clamp_cases [OF that] obtain c
      where c: "Math_max (Fin 10) (Math_min u (Fin 40)) = Fin c" "10 \<le> c" "c \<le> 40"
        "js_le u (Fin 10) \<longrightarrow> c = 10" "js_le (Fin 40) u \<longrightarrow> c = 40"
        "js_le (Fin 10) u \<and> js_le u (Fin 40) \<longrightarrow> u = Fin c"
      by blast
    have g: "getBmiScalePosition (Some u) = js_mul (js_div (js_sub (Fin c) (Fin 10)) (Fin 30)) (Fin 100)"
      by (simp add: getBmiScalePosition_def Let_def c(1))
    show ?thesis
      using scale_of_clamped [OF c(2,3)] c(4,5,6) scale_10 scale_40 unfolding g by auto
  qed
  have none: "getBmiScalePosition None = Fin 0" by (simp add: getBmiScalePosition_def)
  have "\<exists>p. getBmiScalePosition (bmi (run init es)) = Fin p \<and> 0 \<le> p \<and> p \<le> 100"
  proof (cases "bmi (run init es)")
    case None
    then show ?thesis by (simp add: none)
  next
    case (Some u)
    then obtain x where "u = Fin x" using bmi_run_Fin [of es] by auto
    then have "u \<noteq> NaN" by simp
    then show ?thesis using gen [of u] Some by simp
  qed
  moreover have "10 \<le> x \<and> x \<le> 40 \<longrightarrow>
        (\<exists>p. getBmiScalePosition (Some (Fin x)) = Fin p
             \<and> \<bar>p - (x - 10) / 30 * 100\<bar> \<le> 1 / 2 ^ 44)"
  proof
    assume x: "10 \<le> x \<and> x \<le> 40"
    then have le: "js_le (Fin 10) (Fin x) \<and> js_le (Fin x) (Fin 40)"
      by (simp add: js_le_def js_lt_def)
    from gen [of "Fin x"] le obtain p
      where p: "getBmiScalePosition (Some (Fin x)) = Fin p"
        and g: "getBmiScalePosition (Some (Fin x))
                  = js_mul (js_div (js_sub (Fin x) (Fin 10)) (Fin 30)) (Fin 100)"
      by auto
    have "js_mul (js_div (js_sub (Fin x) (Fin 10)) (Fin 30)) (Fin 100) = Fin p"
      using p g by simp
    then have "\<bar>p - (x - 10) / 30 * 100\<bar> \<le> 1 / 2 ^ 44"
      using x by (intro scale_accuracy) simp_all
    then show "\<exists>p. getBmiScalePosition (Some (Fin x)) = Fin p
             \<and> \<bar>p - (x - 10) / 30 * 100\<bar> \<le> 1 / 2 ^ 44"
      using p by blast
  qed
  moreover note none
  moreover have "getBmiScalePosition (Some (Fin 10)) = Fin 0"
    using gen [of "Fin 10"] by (simp add: js_le_def js_lt_def)
  moreover have "getBmiScalePosition (Some (Fin 40)) = Fin 100"
    using gen [of "Fin 40"] by (simp add: js_le_def js_lt_def)
  moreover have "getBmiScalePosition (Some (Fin 5)) = Fin 0"
    using gen [of "Fin 5"] by (simp add: js_le_def js_lt_def)
  moreover have "getBmiScalePosition (Some (Fin 25)) = Fin 50"
    using gen [of "Fin 25"] by (simp add: js_le_def js_lt_def scale_25)
  ultimately show ?thesis using gen [of v] by blast
qed

text \<open>
  The stored score of the inputs \<open>170\<close> and \<open>70\<close>, the binary64 number nearest to
  24.2, is placed at about 47.33; the infinities are clamped to the ends.
\<close>

theorem scale_position_witness:
  "Fin (6811694436397875 / 281474976710656) \<noteq> NaN
   \<and> js_le (Fin 10) (Fin (6811694436397875 / 281474976710656))
   \<and> js_le (Fin (6811694436397875 / 281474976710656)) (Fin 40)
   \<and> getBmiScalePosition (Some (Fin (6811694436397875 / 281474976710656)))
       = Fin (6661574448818859 / 140737488355328)
   \<and> (10::rat) \<le> 121 / 5 \<and> (121 / 5 :: rat) \<le> 40
   \<and> (\<exists>p. getBmiScalePosition (Some (Fin (121 / 5))) = Fin p
          \<and> \<bar>p - (121 / 5 - 10) / 30 * 100\<bar> \<le> 1 / 2 ^ 44)
   \<and> js_le NInf (Fin 10) \<and> getBmiScalePosition (Some NInf) = Fin 0
   \<and> js_le (Fin 40) PInf \<and> getBmiScalePosition (Some PInf) = Fin 100"
proof -
  have a: "(10::rat) \<le> 121 / 5 \<and> (121 / 5 :: rat) \<le> 40" by simp
  from scale_position [of "Fin (6811694436397875 / 281474976710656)" "121 / 5" "[]"] a
  have "\<exists>p. getBmiScalePosition (Some (Fin (121 / 5))) = Fin p
          \<and> \<bar>p - (121 / 5 - 10) / 30 * 100\<bar> \<le> 1 / 2 ^ 44"
    by blast
  then show ?thesis
    using scale_position [of "Fin (6811694436397875 / 281474976710656)" "121 / 5" "[]"]
      scale_position [of NInf "121 / 5" "[]"] scale_position [of PInf "121 / 5" "[]"]
    by (simp add: js_le_def js_lt_def scale_24p2)
qed


section \<open>The rounded score\<close>

text \<open>
  Claim C1, as the claim states it, fails. The height \<open>250\<close> and the weight
  \<open>22.1875\<close> are read exactly and pass validation; \<open>22.1875 / 2.5\<^sup>2\<close> is 3.55, which
  rounds half away from zero to 3.6. The component divides in binary64, where the
  quotient is the number just below 3.55, and stores 3.5.
\<close>

theorem rounded_score_counterexample:
  "validateField Height (js ''250'') = None \<and> validateField Weight (js ''22.1875'') = None
   \<and> parseFloat (js ''250'') = Fin 250 \<and> parseFloat (js ''22.1875'') = Fin (355 / 16)
   \<and> (355 / 16) / (250 / 100)\<^sup>2 = (71 / 20 :: rat)
   \<and> spec_round1 ((355 / 16) / (250 / 100)\<^sup>2) = 18 / 5
   \<and> bmiValue (js ''250'') (js ''22.1875'') = Fin (3996944669291315 / 1125899906842624)
   \<and> (3996944669291315 / 1125899906842624 :: rat) < 71 / 20
   \<and> bmi (run init [Change Height (js ''250''), Change Weight (js ''22.1875''), Submit])
       = Some (Fin (7 / 2))
   \<and> Fin (7 / 2) \<noteq> fl (18 / 5)"
proof -
  have q: "(355 / 16) / (250 / 100)\<^sup>2 = (71 / 20 :: rat)" by (simp add: power2_eq_square)
  then have "spec_round1 ((355 / 16) / (250 / 100)\<^sup>2) = 18 / 5"
    by (simp only: spec_round1_71_20)
  moreover note q
  moreover have "validateField Height (js ''250'') = None"
    "validateField Weight (js ''22.1875'') = None"
    using validateField_Fin [OF parseFloat_250, of Height]
      validateField_Fin [OF parseFloat_22p1875, of Weight]
    by (simp_all add: lower_bound_def upper_bound_def)
  ultimately show ?thesis
    by (simp add: parseFloat_250 parseFloat_22p1875 run_250_22p1875 fl_18_5
          bmiValue_250_22p1875)
qed

text \<open>
  Claim C1, amended. For inputs that pass validation, read as the numbers \<open>H\<close> and
  \<open>W\<close>, the computed score \<open>b\<close>, the binary64 result of dividing the weight by the
  square of the height in meters, is finite and positive and within a relative error
  of \<open>2^-50\<close> of the quotient \<open>W / (H / 100)\<^sup>2\<close> of real arithmetic; the stored score is
  the binary64 number nearest to \<open>b\<close> rounded to one decimal place, half away from
  zero, on \<open>b\<close>'s exact value. In general \<open>Number.parseFloat(x.toFixed(1))\<close> is that
  rounding for every finite \<open>x\<close> of magnitude below \<open>10^21\<close>.
\<close>

theorem rounded_score:
  "(validateField Height (height s) = None \<and> validateField Weight (weight s) = None \<longrightarrow>
      (\<exists>H W b. parseFloat (height s) = Fin H \<and> parseFloat (weight s) = Fin W
           \<and> bmiValue (height s) (weight s) = Fin b \<and> 0 < b
           \<and> \<bar>b - W / (H / 100)\<^sup>2\<bar> \<le> (W / (H / 100)\<^sup>2) / 2 ^ 50
           \<and> bmi (calculateBMI s) = Some (fl (spec_round1 b))))
   \<and> (\<bar>x\<bar> < 10 ^ 21 \<longrightarrow> parse_toFixed1 (Fin x) = fl (spec_round1 x))"
proof -
  have "\<exists>H W b. parseFloat (height s) = Fin H \<and> parseFloat (weight s) = Fin W
           \<and> bmiValue (height s) (weight s) = Fin b \<and> 0 < b
           \<and> \<bar>b - W / (H / 100)\<^sup>2\<bar> \<le> (W / (H / 100)\<^sup>2) / 2 ^ 50
           \<and> bmi (calculateBMI s) = Some (fl (spec_round1 b))"
    if v: "validateField Height (height s) = None" "validateField Weight (weight s) = None"
  proof -
    from bmiValue_validated_accuracy [OF v] obtain H W b
      where p: "parseFloat (height s) = Fin H" "parseFloat (weight s) = Fin W"
        and b: "bmiValue (height s) (weight s) = Fin b" "3 \<le> b" "b \<le> 2000"
        and acc: "\<bar>b - W / (H / 100)\<^sup>2\<bar> \<le> (W / (H / 100)\<^sup>2) / 2 ^ 50"
      by blast
    have "\<bar>b\<bar> < 10 ^ 21" using b(2,3) by simp
    then have "parse_toFixed1 (Fin b) = fl (spec_round1 b)" by (rule parse_toFixed1_Fin)
    then have "bmi (calculateBMI s) = Some (fl (spec_round1 b))"
      using v b(1) by (simp add: calculateBMI_ok isFinite_def)
    moreover have "0 < b" using b(2) by simp
    ultimately show ?thesis using p b(1) acc by blast
  qed
  then show ?thesis using parse_toFixed1_Fin [of x] by blast
qed

text \<open>
  The inputs \<open>170\<close> and \<open>70\<close>: the computed score rounds to 24.2, and its binary64
  neighbour is stored.
\<close>

theorem rounded_score_witness:
  "validateField Height (js ''170'') = None \<and> validateField Weight (js ''70'') = None
   \<and> bmiValue (js ''170'') (js ''70'') = Fin (1704433249978021 / 70368744177664)
   \<and> \<bar>1704433249978021 / 70368744177664 - 70 / (170 / 100)\<^sup>2\<bar>
       \<le> (70 / (170 / 100)\<^sup>2 :: rat) / 2 ^ 50
   \<and> spec_round1 (1704433249978021 / 70368744177664) = 121 / 5
   \<and> bmi (calculateBMI (init\<lparr>height := js ''170'', weight := js ''70''\<rparr>)) = Some (fl (121 / 5))
   \<and> \<bar>71 / 20 :: rat\<bar> < 10 ^ 21 \<and> parse_toFixed1 (Fin (71 / 20)) = fl (18 / 5)"
proof -
  have v: "validateField Height (js ''170'') = None" "validateField Weight (js ''70'') = None"
    using validateField_Fin [OF parseFloat_170, of Height]
      validateField_Fin [OF parseFloat_70, of Weight]
    by (simp_all add: lower_bound_def upper_bound_def)
  have a: "\<bar>71 / 20 :: rat\<bar> < 10 ^ 21" by simp
  from rounded_score [of "init\<lparr>height := js ''170'', weight := js ''70''\<rparr>" "71 / 20"] v a
  obtain H W b where hw: "parseFloat (js ''170'') = Fin H" "parseFloat (js ''70'') = Fin W"
    and b: "bmiValue (js ''170'') (js ''70'') = Fin b"
      "bmi (calculateBMI (init\<lparr>height := js ''170'', weight := js ''70''\<rparr>))
         = Some (fl (spec_round1 b))"
    and acc: "\<bar>b - W / (H / 100)\<^sup>2\<bar> \<le> (W / (H / 100)\<^sup>2) / 2 ^ 50"
    and p: "parse_toFixed1 (Fin (71 / 20)) = fl (spec_round1 (71 / 20))"
    by auto
  have "Fin b = Fin (1704433249978021 / 70368744177664)"
    using b(1) by (simp only: bmiValue_170_70)
  then have bB: "b = 1704433249978021 / 70368744177664" by (simp only: jsnum.inject)
  have "Fin H = Fin 170" using hw(1) by (simp only: parseFloat_170)
  then have H: "H = 170" by (simp only: jsnum.inject)
  have "Fin W = Fin 70" using hw(2) by (simp only: parseFloat_70)
  then have W: "W = 70" by (simp only: jsnum.inject)
  have c1: "bmi (calculateBMI (init\<lparr>height := js ''170'', weight := js ''70''\<rparr>)) = Some (fl (121 / 5))"
    using b(2) unfolding bB spec_round1_170_70 .
  have c2: "parse_toFixed1 (Fin (71 / 20)) = fl (18 / 5)"
    using p unfolding spec_round1_71_20 .
  have c3: "\<bar>1704433249978021 / 70368744177664 - 70 / (170 / 100)\<^sup>2\<bar>
       \<le> (70 / (170 / 100)\<^sup>2 :: rat) / 2 ^ 50"
    using acc unfolding bB H W .
  show ?thesis
    using v a bmiValue_170_70 spec_round1_170_70 c1 c2 c3 by blast
qed


section \<open>The category and the unrounded score\<close>

text \<open>
  Claim C2, as the claim states it, fails twice. The height \<open>160\<close> and the weight
  \<open>64\<close> are read exactly and pass validation; \<open>64 / 1.6\<^sup>2\<close> is 25, a score the claim
  puts in the band from 25 up to 30. The component divides in binary64, where the
  quotient is the number just below 25, and picks the band below 25. And at the claim's
  own example, the height \<open>170\<close> and the weight \<open>71.825\<close>, the category is the
  component's name for that band, \<open>Normal weight\<close>, not \<open>Normal\<close>.
\<close>

theorem category_from_unrounded_score_counterexample:
  "validateField Height (js ''160'') = None \<and> validateField Weight (js ''64'') = None
   \<and> parseFloat (js ''160'') = Fin 160 \<and> parseFloat (js ''64'') = Fin 64
   \<and> 64 / (160 / 100)\<^sup>2 = (25 :: rat)
   \<and> bmiValue (js ''160'') (js ''64'') = Fin (7036874417766399 / 281474976710656)
   \<and> (7036874417766399 / 281474976710656 :: rat) < 25
   \<and> category (run init [Change Height (js ''160''), Change Weight (js ''64''), Submit])
       = ''Normal weight''
   \<and> category (run init [Change Height (js ''160''), Change Weight (js ''64''), Submit])
       \<noteq> ''Overweight''
   \<and> category (run init [Change Height (js ''170''), Change Weight (js ''71.825''), Submit])
       \<noteq> ''Normal''"
proof -
  have "validateField Height (js ''160'') = None" "validateField Weight (js ''64'') = None"
    using validateField_Fin [OF parseFloat_160, of Height]
      validateField_Fin [OF parseFloat_64, of Weight]
    by (simp_all add: lower_bound_def upper_bound_def)
  moreover have "64 / (160 / 100)\<^sup>2 = (25 :: rat)" by (simp add: power2_eq_square)
  ultimately show ?thesis
    by (simp add: parseFloat_160 parseFloat_64 bmiValue_160_64 run_160_64 run_170_71p825)
qed

text \<open>
  Claim C2, amended. For inputs that pass validation, read as the numbers \<open>H\<close> and
  \<open>W\<close>, the category is chosen from the unrounded score \<open>b\<close> as the component computes
  it in binary64: \<open>Underweight\<close> exactly when \<open>b < 18.5\<close>, \<open>Normal weight\<close> exactly when
  \<open>18.5 \<le> b < 25\<close>, \<open>Overweight\<close> exactly when \<open>25 \<le> b < 30\<close>, \<open>Obese\<close> exactly when
  \<open>30 \<le> b\<close>; the stored score is the rounding of the same \<open>b\<close>. The computed score is
  within a relative error of \<open>2^-50\<close> of the quotient \<open>q = W / (H / 100)\<^sup>2\<close> of real
  arithmetic, so the category is the band of \<open>q\<close> whenever, for each of the thresholds
  18.5, 25 and 30, \<open>q\<close> increased by that relative error is below the threshold or
  \<open>q\<close> decreased by it is at or above the threshold. Otherwise it may differ: the
  height \<open>160\<close> and the weight \<open>64\<close> have the real quotient 25, a computed score just
  below 25, the category \<open>Normal weight\<close> and the stored score 25. The height \<open>170\<close>
  and the weight \<open>71.825\<close> give a computed score between 24.852 and 24.853, the
  category \<open>Normal weight\<close> and the stored score 24.9. The category is not taken from
  the stored score: the height \<open>100\<close> and the weight \<open>24.96\<close> store 25 and are
  \<open>Normal weight\<close>, while a score of 25 itself is \<open>Overweight\<close>.
\<close>

theorem category_from_unrounded_score:
  "(validateField Height (height s) = None \<and> validateField Weight (weight s) = None \<longrightarrow>
      (\<exists>H W b. parseFloat (height s) = Fin H \<and> parseFloat (weight s) = Fin W
           \<and> bmiValue (height s) (weight s) = Fin b
           \<and> \<bar>b - W / (H / 100)\<^sup>2\<bar> \<le> (W / (H / 100)\<^sup>2) / 2 ^ 50
           \<and> (category (calculateBMI s) = ''Underweight'' \<longleftrightarrow> b < 37 / 2)
           \<and> (category (calculateBMI s) = ''Normal weight'' \<longleftrightarrow> 37 / 2 \<le> b \<and> b < 25)
           \<and> (category (calculateBMI s) = ''Overweight'' \<longleftrightarrow> 25 \<le> b \<and> b < 30)
           \<and> (category (calculateBMI s) = ''Obese'' \<longleftrightarrow> 30 \<le> b)
           \<and> bmi (calculateBMI s) = Some (parse_toFixed1 (Fin b))
           \<and> ((W / (H / 100)\<^sup>2 * (1 + 1 / 2 ^ 50) < 37 / 2
                   \<or> 37 / 2 \<le> W / (H / 100)\<^sup>2 * (1 - 1 / 2 ^ 50))
                \<and> (W / (H / 100)\<^sup>2 * (1 + 1 / 2 ^ 50) < 25
                   \<or> 25 \<le> W / (H / 100)\<^sup>2 * (1 - 1 / 2 ^ 50))
                \<and> (W / (H / 100)\<^sup>2 * (1 + 1 / 2 ^ 50) < 30
                   \<or> 30 \<le> W / (H / 100)\<^sup>2 * (1 - 1 / 2 ^ 50))
                \<longrightarrow> category (calculateBMI s) = categoryOf (Fin (W / (H / 100)\<^sup>2)))))
   \<and> parseFloat (js ''160'') = Fin 160 \<and> parseFloat (js ''64'') = Fin 64
   \<and> 64 / (160 / 100)\<^sup>2 = (25 :: rat)
   \<and> bmiValue (js ''160'') (js ''64'') = Fin (7036874417766399 / 281474976710656)
   \<and> (7036874417766399 / 281474976710656 :: rat) < 25
   \<and> category (run init [Change Height (js ''160''), Change Weight (js ''64''), Submit])
       = ''Normal weight''
   \<and> bmi (run init [Change Height (js ''160''), Change Weight (js ''64''), Submit])
       = Some (Fin 25)
   \<and> bmiValue (js ''170'') (js ''71.825'') = Fin (6995481038838363 / 281474976710656)
   \<and> (24852 / 1000 :: rat) < 6995481038838363 / 281474976710656
   \<and> (6995481038838363 / 281474976710656 :: rat) < 24853 / 1000
   \<and> category (run init [Change Height (js ''170''), Change Weight (js ''71.825''), Submit])
       = ''Normal weight''
   \<and> bmi (run init [Change Height (js ''170''), Change Weight (js ''71.825''), Submit])
       = Some (parseFloat (js ''24.9''))
   \<and> bmi (run init [Change Height (js ''100''), Change Weight (js ''24.96''), Submit])
       = Some (Fin 25)
   \<and> category (run init [Change Height (js ''100''), Change Weight (js ''24.96''), Submit])
       = ''Normal weight''
   \<and> categoryOf (Fin 25) = ''Overweight''"
proof -
  have "\<exists>H W b. parseFloat (height s) = Fin H \<and> parseFloat (weight s) = Fin W
           \<and> bmiValue (height s) (weight s) = Fin b
           \<and> \<bar>b - W / (H / 100)\<^sup>2\<bar> \<le> (W / (H / 100)\<^sup>2) / 2 ^ 50
           \<and> (category (calculateBMI s) = ''Underweight'' \<longleftrightarrow> b < 37 / 2)
           \<and> (category (calculateBMI s) = ''Normal weight'' \<longleftrightarrow> 37 / 2 \<le> b \<and> b < 25)
           \<and> (category (calculateBMI s) = ''Overweight'' \<longleftrightarrow> 25 \<le> b \<and> b < 30)
           \<and> (category (calculateBMI s) = ''Obese'' \<longleftrightarrow> 30 \<le> b)
           \<and> bmi (calculateBMI s) = Some (parse_toFixed1 (Fin b))
           \<and> ((W / (H / 100)\<^sup>2 * (1 + 1 / 2 ^ 50) < 37 / 2
                   \<or> 37 / 2 \<le> W / (H / 100)\<^sup>2 * (1 - 1 / 2 ^ 50))
                \<and> (W / (H / 100)\<^sup>2 * (1 + 1 / 2 ^ 50) < 25
                   \<or> 25 \<le> W / (H / 100)\<^sup>2 * (1 - 1 / 2 ^ 50))
                \<and> (W / (H / 100)\<^sup>2 * (1 + 1 / 2 ^ 50) < 30
                   \<or> 30 \<le> W / (H / 100)\<^sup>2 * (1 - 1 / 2 ^ 50))
                \<longrightarrow> category (calculateBMI s) = categoryOf (Fin (W / (H / 100)\<^sup>2)))"
    if v: "validateField Height (height s) = None" "validateField Weight (weight s) = None"
  proof -
    from bmiValue_validated_accuracy [OF v] obtain H W b
      where p: "parseFloat (height s) = Fin H" "parseFloat (weight s) = Fin W"
        and b: "bmiValue (height s) (weight s) = Fin b"
        and acc: "\<bar>b - W / (H / 100)\<^sup>2\<bar> \<le> (W / (H / 100)\<^sup>2) / 2 ^ 50"
      by blast
    have c: "category (calculateBMI s) = categoryOf (Fin b)"
      and d: "bmi (calculateBMI s) = Some (parse_toFixed1 (Fin b))"
      using v b by (simp_all add: calculateBMI_ok isFinite_def)
    have bands: "(categoryOf (Fin b) = ''Underweight'' \<longleftrightarrow> b < 37 / 2)
        \<and> (categoryOf (Fin b) = ''Normal weight'' \<longleftrightarrow> 37 / 2 \<le> b \<and> b < 25)
        \<and> (categoryOf (Fin b) = ''Overweight'' \<longleftrightarrow> 25 \<le> b \<and> b < 30)
        \<and> (categoryOf (Fin b) = ''Obese'' \<longleftrightarrow> 30 \<le> b)"
      by (auto simp add: categoryOf_Fin)
    have agree: "(W / (H / 100)\<^sup>2 * (1 + 1 / 2 ^ 50) < 37 / 2
                   \<or> 37 / 2 \<le> W / (H / 100)\<^sup>2 * (1 - 1 / 2 ^ 50))
                \<and> (W / (H / 100)\<^sup>2 * (1 + 1 / 2 ^ 50) < 25
                   \<or> 25 \<le> W / (H / 100)\<^sup>2 * (1 - 1 / 2 ^ 50))
                \<and> (W / (H / 100)\<^sup>2 * (1 + 1 / 2 ^ 50) < 30
                   \<or> 30 \<le> W / (H / 100)\<^sup>2 * (1 - 1 / 2 ^ 50))
                \<longrightarrow> categoryOf (Fin b) = categoryOf (Fin (W / (H / 100)\<^sup>2))"
      using categoryOf_agree [OF acc] by blast
    show ?thesis
      unfolding c d using p b acc bands agree by blast
  qed
  moreover have "64 / (160 / 100)\<^sup>2 = (25 :: rat)" by (simp add: power2_eq_square)
  ultimately show ?thesis
    by (simp add: parseFloat_160 parseFloat_64 bmiValue_160_64 run_160_64
          bmiValue_170_71p825 run_170_71p825 run_100_24p96 parseFloat_24p9 categoryOf_Fin)
qed

text \<open>
  The amended property at the height \<open>170\<close> and the weight \<open>71.825\<close>, whose real
  quotient is away from every threshold.
\<close>

theorem category_from_unrounded_score_witness:
  "validateField Height (js ''170'') = None \<and> validateField Weight (js ''71.825'') = None
   \<and> parseFloat (js ''170'') = Fin 170
   \<and> parseFloat (js ''71.825'') = Fin (5054235050560717 / 70368744177664)
   \<and> bmiValue (js ''170'') (js ''71.825'') = Fin (6995481038838363 / 281474976710656)
   \<and> 37 / 2 \<le> 5054235050560717 / 70368744177664 / (170 / 100)\<^sup>2 * (1 - 1 / 2 ^ 50 :: rat)
   \<and> 5054235050560717 / 70368744177664 / (170 / 100)\<^sup>2 * (1 + 1 / 2 ^ 50 :: rat) < 25
   \<and> categoryOf (Fin (5054235050560717 / 70368744177664 / (170 / 100)\<^sup>2)) = ''Normal weight''
   \<and> category (calculateBMI (init\<lparr>height := js ''170'', weight := js ''71.825''\<rparr>))
       = ''Normal weight''"
proof -
  let ?Q = "5054235050560717 / 70368744177664 / (170 / 100)\<^sup>2 :: rat"
  have v: "validateField Height (js ''170'') = None" "validateField Weight (js ''71.825'') = None"
    using validateField_Fin [OF parseFloat_170, of Height]
      validateField_Fin [OF parseFloat_71p825, of Weight]
    by (simp_all add: lower_bound_def upper_bound_def)
  have Q: "?Q = 126355876264017925 / 5084141766836224" by (simp add: power2_eq_square)
  have away: "37 / 2 \<le> ?Q * (1 - 1 / 2 ^ 50)" "?Q * (1 + 1 / 2 ^ 50) < 25"
    unfolding Q by simp_all
  have cq: "categoryOf (Fin ?Q) = ''Normal weight''"
    unfolding Q by (simp add: categoryOf_Fin)
  let ?s = "init\<lparr>height := js ''170'', weight := js ''71.825''\<rparr>"
  have hs: "height ?s = js ''170''" "weight ?s = js ''71.825''" by simp_all
  have vs: "validateField Height (height ?s) = None \<and> validateField Weight (weight ?s) = None"
    unfolding hs using v by blast
  from category_from_unrounded_score [of ?s, THEN conjunct1, THEN mp, OF vs]
  obtain H W b where hw: "parseFloat (js ''170'') = Fin H" "parseFloat (js ''71.825'') = Fin W"
    and b: "bmiValue (js ''170'') (js ''71.825'') = Fin b"
    and ag: "(W / (H / 100)\<^sup>2 * (1 + 1 / 2 ^ 50) < 37 / 2
                   \<or> 37 / 2 \<le> W / (H / 100)\<^sup>2 * (1 - 1 / 2 ^ 50))
                \<and> (W / (H / 100)\<^sup>2 * (1 + 1 / 2 ^ 50) < 25
                   \<or> 25 \<le> W / (H / 100)\<^sup>2 * (1 - 1 / 2 ^ 50))
                \<and> (W / (H / 100)\<^sup>2 * (1 + 1 / 2 ^ 50) < 30
                   \<or> 30 \<le> W / (H / 100)\<^sup>2 * (1 - 1 / 2 ^ 50))
                \<longrightarrow> category (calculateBMI (init\<lparr>height := js ''170'', weight := js ''71.825''\<rparr>))
                      = categoryOf (Fin (W / (H / 100)\<^sup>2))"
    unfolding hs by blast
  have "Fin H = Fin 170" using hw(1) by (simp only: parseFloat_170)
  then have H: "H = 170" by (simp only: jsnum.inject)
  have "Fin W = Fin (5054235050560717 / 70368744177664)"
    using hw(2) by (simp only: parseFloat_71p825)
  then have W: "W = 5054235050560717 / 70368744177664" by (simp only: jsnum.inject)
  have lt30: "?Q * (1 + 1 / 2 ^ 50) < 30" using away(2) by simp
  have "category (calculateBMI (init\<lparr>height := js ''170'', weight := js ''71.825''\<rparr>))
          = categoryOf (Fin ?Q)"
    using ag away lt30 unfolding H W by blast
  then have "category (calculateBMI (init\<lparr>height := js ''170'', weight := js ''71.825''\<rparr>))
          = ''Normal weight''"
    by (simp only: cq)
  then show ?thesis
    using v parseFloat_170 parseFloat_71p825 bmiValue_170_71p825 away cq by blast
qed

end
